theory Spec2Isabelle
  imports Main "HOL-Library.List_Lexorder"
begin

section \<open>Status codes\<close>

text \<open>
  The values of \<open>OLAPStatus\<close> that \<open>reader.cpp\<close> names, and \<open>OLAP_ERR_OTHER\<close> for
  every other error a collaborator (segment, row cursor, delete handler) may hand back.
  C++ undefined behaviour (a null dereference, an index past the end of a vector, a
  second \<open>delete\<close> of the same object) is not a status: it is the outcome
  \<open>Undefined\<close>.
\<close>

datatype OLAPStatus =
    OLAP_SUCCESS
  | OLAP_ERR_DATA_EOF
  | OLAP_ERR_INPUT_PARAMETER_ERROR
  | OLAP_ERR_READER_GET_ITERATOR_ERROR
  | OLAP_ERR_VERSION_NOT_EXIST
  | OLAP_ERR_MALLOC_ERROR
  | OLAP_ERR_OTHER int

datatype ub = NullDeref | OutOfRange string | EmptyHeap | DoubleFree

datatype outcome = Returned OLAPStatus | Undefined ub

section \<open>Tablet schema and rows\<close>

datatype FieldType =
    OLAP_FIELD_TYPE_TINYINT
  | OLAP_FIELD_TYPE_SMALLINT
  | OLAP_FIELD_TYPE_INT
  | OLAP_FIELD_TYPE_BIGINT
  | OLAP_FIELD_TYPE_LARGEINT
  | OLAP_FIELD_TYPE_DECIMAL
  | OLAP_FIELD_TYPE_CHAR
  | OLAP_FIELD_TYPE_VARCHAR
  | OLAP_FIELD_TYPE_DATE
  | OLAP_FIELD_TYPE_DATETIME
  | OLAP_FIELD_TYPE_HLL
  | OLAP_FIELD_TYPE_UNKNOWN

datatype FieldAggregationMethod =
    OLAP_FIELD_AGGREGATION_NONE
  | OLAP_FIELD_AGGREGATION_SUM
  | OLAP_FIELD_AGGREGATION_MIN
  | OLAP_FIELD_AGGREGATION_MAX
  | OLAP_FIELD_AGGREGATION_REPLACE

record FieldInfo =
  fi_type :: FieldType
  fi_is_key :: bool
  fi_is_bf_column :: bool
  fi_aggregation :: FieldAggregationMethod

datatype KeysType = DUP_KEYS | UNIQUE_KEYS | AGG_KEYS

text \<open>
  The tablet (\<open>OLAPTable\<close>) is a collaborator whose code is outside \<open>reader.cpp\<close>;
  the reader only calls the accessors below, which are taken as given.
  \<open>get_field_type_by_index\<close> is kept as a function on all of \<open>int\<close>, because the
  reader calls it with an \<open>int\<close> it never checks against the schema.
\<close>

record OLAPTable =
  tablet_schema :: "FieldInfo list"
  keys_type :: KeysType
  num_short_key_fields :: int
  get_field_type_by_index :: "int \<Rightarrow> FieldType"

text \<open>A row is the list of its column values, in schema order.\<close>

type_synonym RowCursor = "int list"

definition col :: "RowCursor \<Rightarrow> nat \<Rightarrow> int" where
  "col r c = (if c < length r then r ! c else 0)"

definition key_columns :: "FieldInfo list \<Rightarrow> nat list" where
  "key_columns sch = filter (\<lambda>i. fi_is_key (sch ! i)) [0..<length sch]"

definition full_key :: "FieldInfo list \<Rightarrow> RowCursor \<Rightarrow> int list" where
  "full_key sch r = map (col r) (key_columns sch)"

text \<open>
  Modelled from the spec: \<open>RowCursor::full_key_cmp\<close> (\<open>row_cursor.h\<close> is not part of
  the sources at hand) is the "full-key compare" of the data model: the key columns are
  compared in schema order, the result is negative, zero or positive.
\<close>

definition full_key_cmp :: "FieldInfo list \<Rightarrow> RowCursor \<Rightarrow> RowCursor \<Rightarrow> int" where
  "full_key_cmp sch a b =
     (if full_key sch a < full_key sch b then - 1
      else if full_key sch a = full_key sch b then 0 else 1)"

text \<open>
  Modelled from the spec: \<open>RowCursor::equal(col_ids, a, b)\<close> is the "per-projection
  equality": the two rows agree on every listed column.
\<close>

definition RowCursor_equal :: "nat list \<Rightarrow> RowCursor \<Rightarrow> RowCursor \<Rightarrow> bool" where
  "RowCursor_equal cids a b = list_all (\<lambda>c. col a c = col b c) cids"

section \<open>Row blocks, segments and the delete handler\<close>

datatype DelCondSatisfied = DEL_SATISFIED | DEL_NOT_SATISFIED | DEL_PARTIAL_SATISFIED

text \<open>
  Modelled from the spec: a \<open>RowBlock\<close> (\<open>row_block.h\<close> is not at hand) is the decoded
  rows of one block with a read position; \<open>has_remaining\<close> is \<open>pos < number of rows\<close>,
  \<open>pos_inc\<close> adds one, \<open>get_row(pos)\<close> reads the row at \<open>pos\<close>.
\<close>

record RowBlock =
  rb_rows :: "RowCursor list"
  rb_pos :: nat
  rb_block_status :: DelCondSatisfied

definition has_remaining :: "RowBlock \<Rightarrow> bool" where
  "has_remaining b = (rb_pos b < length (rb_rows b))"

definition pos_inc :: "RowBlock \<Rightarrow> RowBlock" where
  "pos_inc b = b\<lparr>rb_pos := rb_pos b + 1\<rparr>"

text \<open>
  Modelled from the spec: a segment (\<open>ColumnData\<close>, \<open>column_data.h\<close> is not at hand).
  \<open>cd_version\<close> is \<open>version().second\<close>, \<open>cd_delete_flag\<close> is \<open>delete_flag()\<close>,
  \<open>cd_row_cursor_init\<close> is what \<open>RowCursor::init\<close> returns for this segment's seek
  columns. \<open>cd_prepare\<close> is \<open>prepare_block_read\<close>, taken as given: for the two keys and
  the two flags it answers a status, the first block (or null), the blocks that
  \<open>get_next_block\<close> will hand out afterwards and the status \<open>get_next_block\<close> answers
  once they are used up (\<open>OLAP_ERR_DATA_EOF\<close>, an error, or \<open>OLAP_SUCCESS\<close> with a null
  block). \<open>cd_blocks\<close> and \<open>cd_end\<close> are the segment's read state.
\<close>

record ColumnData =
  cd_version :: int
  cd_delete_flag :: bool
  cd_row_cursor_init :: OLAPStatus
  cd_prepare :: "RowCursor option \<Rightarrow> bool \<Rightarrow> RowCursor option \<Rightarrow> bool
                  \<Rightarrow> OLAPStatus \<times> RowBlock option \<times> RowBlock list \<times> OLAPStatus"
  cd_blocks :: "RowBlock list"
  cd_end :: OLAPStatus

definition prepare_block_read ::
  "ColumnData \<Rightarrow> RowCursor option \<Rightarrow> bool \<Rightarrow> RowCursor option \<Rightarrow> bool
     \<Rightarrow> OLAPStatus \<times> RowBlock option \<times> ColumnData" where
  "prepare_block_read d start_key find_last_row end_key end_key_find_last_row =
     (case cd_prepare d start_key find_last_row end_key end_key_find_last_row of
        (res, block, following, fin) \<Rightarrow> (res, block, d\<lparr>cd_blocks := following, cd_end := fin\<rparr>))"

definition get_next_block :: "ColumnData \<Rightarrow> OLAPStatus \<times> RowBlock option \<times> ColumnData" where
  "get_next_block d =
     (case cd_blocks d of
        [] \<Rightarrow> (cd_end d, None, d)
      | b # bs \<Rightarrow> (OLAP_SUCCESS, Some b, d\<lparr>cd_blocks := bs\<rparr>))"

text \<open>
  The delete handler is a collaborator: \<open>is_filter_data(version, row)\<close> is taken as
  given; \<open>dh_delete_conditions\<close> lists, for every loaded delete condition, the column
  ids of \<open>del_cond->columns()\<close> in iteration order, and \<open>conditions_num()\<close> is their
  number.
\<close>

record DeleteHandler =
  dh_is_filter_data :: "int \<Rightarrow> RowCursor \<Rightarrow> bool"
  dh_delete_conditions :: "nat list list"

definition conditions_num :: "DeleteHandler \<Rightarrow> nat" where
  "conditions_num dh = length (dh_delete_conditions dh)"

record OlapReaderStatistics =
  rows_del_filtered :: int
  rows_stats_filtered :: int

text \<open>
  What a \<open>ChildCtx\<close> and the \<open>CollectIterator\<close> reach through their \<open>Reader*\<close>: the
  delete handler (read) and, through the rows, the tablet schema. The statistics they
  write are passed and returned explicitly.
\<close>

record ReaderView =
  rv_schema :: "FieldInfo list"
  rv_delete_handler :: DeleteHandler

section \<open>CollectIterator::ChildCtx\<close>

text \<open>
  \<open>cc_current_row\<close> is \<open>_current_row\<close>: \<open>None\<close> for \<open>nullptr\<close>, otherwise the content
  of \<open>_row_cursor\<close> it points to.
\<close>

record ChildCtx =
  cc_data :: ColumnData
  cc_is_delete :: bool
  cc_row_block :: "RowBlock option"
  cc_current_row :: "RowCursor option"

definition ChildCtx_new :: "ColumnData \<Rightarrow> RowBlock option \<Rightarrow> ChildCtx" where
  "ChildCtx_new d block =
     \<lparr>cc_data = d, cc_is_delete = cd_delete_flag d, cc_row_block = block,
      cc_current_row = None\<rparr>"

definition version :: "ChildCtx \<Rightarrow> int" where
  "version c = cd_version (cc_data c)"

definition block_size :: "RowBlock \<Rightarrow> nat" where
  "block_size b = Suc (length (rb_rows b) - rb_pos b)"

text \<open>
  The \<open>do ... while (_row_block != nullptr)\<close> loop of \<open>_refresh_current_row\<close>, entered
  with the non-null block \<open>b\<close> as \<open>_row_block\<close>. A filtered row is counted and skipped
  (\<open>continue\<close>); an exhausted block asks the segment for the next one.
\<close>

function refresh_loop ::
  "ReaderView \<Rightarrow> ChildCtx \<Rightarrow> RowBlock \<Rightarrow> OlapReaderStatistics
     \<Rightarrow> OLAPStatus \<times> ChildCtx \<times> OlapReaderStatistics" where
  "refresh_loop rv c b st =
     (if has_remaining b then
        (let row = rb_rows b ! rb_pos b in
         if rb_block_status b = DEL_PARTIAL_SATISFIED
            \<and> dh_is_filter_data (rv_delete_handler rv) (cd_version (cc_data c)) row
         then refresh_loop rv c (pos_inc b) (st\<lparr>rows_del_filtered := rows_del_filtered st + 1\<rparr>)
         else (OLAP_SUCCESS, c\<lparr>cc_row_block := Some b, cc_current_row := Some row\<rparr>, st))
      else
        (case get_next_block (cc_data c) of
           (res, nb, d') \<Rightarrow>
             if res \<noteq> OLAP_SUCCESS
             then (res, c\<lparr>cc_data := d', cc_row_block := nb, cc_current_row := None\<rparr>, st)
             else (case nb of
                     None \<Rightarrow>
                       (OLAP_ERR_DATA_EOF,
                        c\<lparr>cc_data := d', cc_row_block := None, cc_current_row := None\<rparr>, st)
                   | Some b' \<Rightarrow> refresh_loop rv (c\<lparr>cc_data := d'\<rparr>) b' st)))"
  by pat_completeness auto
termination
  by (relation "measure (\<lambda>(rv, c, b, st).
        block_size b + sum_list (map block_size (cd_blocks (cc_data c))))")
     (auto simp: has_remaining_def pos_inc_def block_size_def get_next_block_def
           split: list.splits)

declare refresh_loop.simps [simp del]

text \<open>
  \<open>_refresh_current_row\<close> itself: \<open>DCHECK(_row_block != nullptr)\<close> is compiled out of a
  release build, and \<open>_row_block->has_remaining()\<close> on a null block is a null
  dereference.
\<close>

definition ChildCtx_refresh_current_row ::
  "ReaderView \<Rightarrow> ChildCtx \<Rightarrow> OlapReaderStatistics
     \<Rightarrow> outcome \<times> ChildCtx \<times> OlapReaderStatistics" where
  "ChildCtx_refresh_current_row rv c st =
     (case cc_row_block c of
        None \<Rightarrow> (Undefined NullDeref, c, st)
      | Some b \<Rightarrow> (case refresh_loop rv c b st of (res, c', st') \<Rightarrow> (Returned res, c', st')))"

definition ChildCtx_init ::
  "ReaderView \<Rightarrow> ChildCtx \<Rightarrow> OlapReaderStatistics
     \<Rightarrow> outcome \<times> ChildCtx \<times> OlapReaderStatistics" where
  "ChildCtx_init rv c st =
     (let res = cd_row_cursor_init (cc_data c) in
      if res \<noteq> OLAP_SUCCESS then (Returned res, c, st)
      else ChildCtx_refresh_current_row rv c st)"

text \<open>
  \<open>ChildCtx::next\<close>: the out-parameters \<open>*row\<close> and \<open>*delete_flag\<close> are
  \<open>cc_current_row\<close> and \<open>cc_is_delete\<close> of the child returned.
\<close>

definition ChildCtx_next ::
  "ReaderView \<Rightarrow> ChildCtx \<Rightarrow> OlapReaderStatistics
     \<Rightarrow> outcome \<times> ChildCtx \<times> OlapReaderStatistics" where
  "ChildCtx_next rv c st =
     (case cc_row_block c of
        None \<Rightarrow> (Undefined NullDeref, c, st)
      | Some b \<Rightarrow> ChildCtx_refresh_current_row rv (c\<lparr>cc_row_block := Some (pos_inc b)\<rparr>) st)"

section \<open>CollectIterator\<close>

text \<open>
  A \<open>ChildCtx*\<close> is the index of the child in \<open>_children\<close>, which owns the children in
  the order they were pushed. \<open>_heap\<close> is the bag of child pointers a
  \<open>std::priority_queue\<close> holds; its top is an entry that the comparator puts before no
  other entry.
\<close>

record CollectIterator =
  it_merge :: bool
  it_heap :: "nat list"
  it_children :: "ChildCtx list"
  it_cur_child :: "nat option"
  it_child_idx :: nat

definition CollectIterator_new :: CollectIterator where
  "CollectIterator_new =
     \<lparr>it_merge = True, it_heap = [], it_children = [], it_cur_child = None, it_child_idx = 0\<rparr>"

text \<open>
  \<open>ChildCtxComparator::operator()\<close>. It dereferences both current rows; the heap
  operations below are undefined when an entry has none (\<open>heap_ok\<close>).
\<close>

definition ChildCtxComparator :: "FieldInfo list \<Rightarrow> ChildCtx \<Rightarrow> ChildCtx \<Rightarrow> bool" where
  "ChildCtxComparator sch a b =
     (let cmp_res = full_key_cmp sch (the (cc_current_row a)) (the (cc_current_row b)) in
      if cmp_res \<noteq> 0 then cmp_res > 0 else version a > version b)"

definition heap_ok :: "ChildCtx list \<Rightarrow> nat list \<Rightarrow> bool" where
  "heap_ok cs h = list_all (\<lambda>i. i < length cs \<and> cc_current_row (cs ! i) \<noteq> None) h"

fun heap_select :: "FieldInfo list \<Rightarrow> ChildCtx list \<Rightarrow> nat \<Rightarrow> nat list \<Rightarrow> nat" where
  "heap_select sch cs best [] = best"
| "heap_select sch cs best (y # ys) =
     heap_select sch cs (if ChildCtxComparator sch (cs ! best) (cs ! y) then y else best) ys"

definition heap_top :: "FieldInfo list \<Rightarrow> ChildCtx list \<Rightarrow> nat list \<Rightarrow> nat option" where
  "heap_top sch cs h = (case h of [] \<Rightarrow> None | x # xs \<Rightarrow> Some (heap_select sch cs x xs))"

definition heap_pop :: "FieldInfo list \<Rightarrow> ChildCtx list \<Rightarrow> nat list \<Rightarrow> nat list" where
  "heap_pop sch cs h = (case heap_top sch cs h of None \<Rightarrow> h | Some t \<Rightarrow> remove1 t h)"

definition heap_push :: "nat \<Rightarrow> nat list \<Rightarrow> nat list" where
  "heap_push i h = h @ [i]"

text \<open>
  \<open>CollectIterator::init\<close>: the three fields of the reader it reads are its arguments.
\<close>

datatype ReaderType =
    READER_QUERY
  | READER_ALTER_TABLE
  | READER_BASE_COMPACTION
  | READER_CUMULATIVE_COMPACTION
  | READER_CHECKSUM

definition CollectIterator_init ::
  "ReaderType \<Rightarrow> bool \<Rightarrow> KeysType \<Rightarrow> CollectIterator \<Rightarrow> CollectIterator" where
  "CollectIterator_init rtype aggregation ktype it =
     (if rtype = READER_QUERY \<and> (aggregation \<or> ktype = DUP_KEYS)
      then it\<lparr>it_merge := False\<rparr> else it)"

text \<open>
  \<open>CollectIterator::add_child\<close>. \<open>RETURN_NOT_OK(child->init())\<close> returns the status of
  \<open>init\<close> when it is not \<open>OLAP_SUCCESS\<close>; the \<open>unique_ptr\<close> then destroys the child.
\<close>

definition CollectIterator_add_child ::
  "ReaderView \<Rightarrow> CollectIterator \<Rightarrow> ColumnData \<Rightarrow> RowBlock option \<Rightarrow> OlapReaderStatistics
     \<Rightarrow> outcome \<times> CollectIterator \<times> OlapReaderStatistics" where
  "CollectIterator_add_child rv it d block st =
     (case ChildCtx_init rv (ChildCtx_new d block) st of
        (Undefined u, child, st') \<Rightarrow> (Undefined u, it, st')
      | (Returned res, child, st') \<Rightarrow>
          if res \<noteq> OLAP_SUCCESS then (Returned res, it, st')
          else if cc_current_row child = None then (Returned OLAP_SUCCESS, it, st')
          else
            (let child_ptr = length (it_children it);
                 it1 = it\<lparr>it_children := it_children it @ [child]\<rparr>
             in if it_merge it1 then
                  (let h = heap_push child_ptr (it_heap it1) in
                   if \<not> heap_ok (it_children it1) h then (Undefined NullDeref, it1, st')
                   else (Returned OLAP_SUCCESS,
                         it1\<lparr>it_heap := h,
                             it_cur_child := heap_top (rv_schema rv) (it_children it1) h\<rparr>, st'))
                else if it_cur_child it1 = None then
                  (if it_child_idx it1 < length (it_children it1)
                   then (Returned OLAP_SUCCESS, it1\<lparr>it_cur_child := Some (it_child_idx it1)\<rparr>, st')
                   else (Undefined (OutOfRange ''_children''), it1, st'))
                else (Returned OLAP_SUCCESS, it1, st')))"

text \<open>\<open>CollectIterator::current_row\<close>: the current row of \<open>_cur_child\<close> and its delete flag.\<close>

definition CollectIterator_current_row :: "CollectIterator \<Rightarrow> RowCursor option \<times> bool option" where
  "CollectIterator_current_row it =
     (case it_cur_child it of
        None \<Rightarrow> (None, None)
      | Some i \<Rightarrow> (cc_current_row (it_children it ! i), Some (cc_is_delete (it_children it ! i))))"

text \<open>
  \<open>CollectIterator::_merge_next\<close>. The results are the status, the out-parameters
  \<open>*row\<close> and \<open>*delete_flag\<close>, the iterator and the statistics.
\<close>

definition CollectIterator_merge_next ::
  "ReaderView \<Rightarrow> CollectIterator \<Rightarrow> OlapReaderStatistics
     \<Rightarrow> outcome \<times> RowCursor option \<times> bool \<times> CollectIterator \<times> OlapReaderStatistics" where
  "CollectIterator_merge_next rv it st =
     (let cs = it_children it; sch = rv_schema rv in
      if it_heap it = [] then (Undefined EmptyHeap, None, False, it, st)
      else if \<not> heap_ok cs (it_heap it) then (Undefined NullDeref, None, False, it, st)
      else
        (let h1 = heap_pop sch cs (it_heap it) in
         case it_cur_child it of
           None \<Rightarrow> (Undefined NullDeref, None, False, it, st)
         | Some i \<Rightarrow>
             if \<not> i < length cs then (Undefined (OutOfRange ''_children''), None, False, it, st)
             else
               (case ChildCtx_next rv (cs ! i) st of
                  (Undefined u, c', st') \<Rightarrow> (Undefined u, None, False, it, st')
                | (Returned res, c', st') \<Rightarrow>
                    (let cs' = cs[i := c'] in
                     if res = OLAP_SUCCESS then
                       (let h2 = heap_push i h1 in
                        if \<not> heap_ok cs' h2
                        then (Undefined NullDeref, None, False, it, st')
                        else
                          (let t = heap_select sch cs' (hd h2) (tl h2) in
                           (Returned OLAP_SUCCESS, cc_current_row (cs' ! t), cc_is_delete (cs' ! t),
                            it\<lparr>it_children := cs', it_heap := h2, it_cur_child := Some t\<rparr>, st')))
                     else if res = OLAP_ERR_DATA_EOF then
                       (if length h1 > 0 then
                          (if \<not> heap_ok cs' h1
                           then (Undefined NullDeref, None, False, it, st')
                           else
                             (let t = heap_select sch cs' (hd h1) (tl h1) in
                              (Returned OLAP_SUCCESS, cc_current_row (cs' ! t),
                               cc_is_delete (cs' ! t),
                               it\<lparr>it_children := cs', it_heap := h1, it_cur_child := Some t\<rparr>,
                               st')))
                        else
                          (Returned OLAP_ERR_DATA_EOF, cc_current_row c', cc_is_delete c',
                           it\<lparr>it_children := cs', it_heap := h1, it_cur_child := None\<rparr>, st'))
                     else
                       (Returned res, cc_current_row c', cc_is_delete c',
                        it\<lparr>it_children := cs', it_heap := h1\<rparr>, st')))))"

text \<open>\<open>CollectIterator::_normal_next\<close>.\<close>

definition CollectIterator_normal_next ::
  "ReaderView \<Rightarrow> CollectIterator \<Rightarrow> OlapReaderStatistics
     \<Rightarrow> outcome \<times> RowCursor option \<times> bool \<times> CollectIterator \<times> OlapReaderStatistics" where
  "CollectIterator_normal_next rv it st =
     (let cs = it_children it in
      case it_cur_child it of
        None \<Rightarrow> (Undefined NullDeref, None, False, it, st)
      | Some i \<Rightarrow>
          if \<not> i < length cs then (Undefined (OutOfRange ''_children''), None, False, it, st)
          else
            (case ChildCtx_next rv (cs ! i) st of
               (Undefined u, c', st') \<Rightarrow> (Undefined u, None, False, it, st')
             | (Returned res, c', st') \<Rightarrow>
                 (let cs' = cs[i := c'] in
                  if res = OLAP_SUCCESS then
                    (Returned OLAP_SUCCESS, cc_current_row c', cc_is_delete c',
                     it\<lparr>it_children := cs'\<rparr>, st')
                  else if res = OLAP_ERR_DATA_EOF then
                    (let idx = it_child_idx it + 1 in
                     if idx < length cs' then
                       (Returned OLAP_SUCCESS, cc_current_row (cs' ! idx), cc_is_delete (cs' ! idx),
                        it\<lparr>it_children := cs', it_child_idx := idx, it_cur_child := Some idx\<rparr>,
                        st')
                     else
                       (Returned OLAP_ERR_DATA_EOF, cc_current_row c', cc_is_delete c',
                        it\<lparr>it_children := cs', it_child_idx := idx, it_cur_child := None\<rparr>,
                        st'))
                  else
                    (Returned res, cc_current_row c', cc_is_delete c',
                     it\<lparr>it_children := cs'\<rparr>, st'))))"

definition CollectIterator_next ::
  "ReaderView \<Rightarrow> CollectIterator \<Rightarrow> OlapReaderStatistics
     \<Rightarrow> outcome \<times> RowCursor option \<times> bool \<times> CollectIterator \<times> OlapReaderStatistics" where
  "CollectIterator_next rv it st =
     (if it_merge it then CollectIterator_merge_next rv it st
      else CollectIterator_normal_next rv it st)"

definition CollectIterator_clear :: "CollectIterator \<Rightarrow> CollectIterator" where
  "CollectIterator_clear it =
     it\<lparr>it_heap := [], it_children := [], it_cur_child := None, it_child_idx := 0\<rparr>"

section \<open>Reader\<close>

text \<open>
  Conditions pushed down to the segments: \<open>Conditions::columns()\<close> maps a column id to
  the conditions on that column, and a \<open>Cond\<close> has an operator and an operand set, whose
  size is the number of distinct operands.
\<close>

datatype CondOp = OP_EQ | OP_NE | OP_LT | OP_LE | OP_GT | OP_GE | OP_IN | OP_IS | OP_NULL

record Cond =
  cond_op :: CondOp
  cond_operand_set :: "string list"

definition operand_set_size :: "Cond \<Rightarrow> nat" where
  "operand_set_size c = length (remdups (cond_operand_set c))"

record KeysParam =
  kp_range :: string
  kp_end_range :: string
  kp_start_keys :: "RowCursor list"
  kp_end_keys :: "RowCursor list"

text \<open>
  The fields of \<open>Reader\<close> that the functions below read or write. \<open>r_next_key\<close> is
  \<open>_next_key\<close>, a pointer into the current child of the iterator: \<open>None\<close> for null,
  otherwise the row it points to (every read of it follows the call that set it, with no
  change of the child in between). \<open>r_scanner_row_num\<close> is
  \<open>config::doris_scanner_row_num\<close>, which the reader only reads.
\<close>

record Reader =
  r_next_key_index :: nat
  r_aggregation :: bool
  r_reader_type :: ReaderType
  r_next_delete_flag :: bool
  r_next_key :: "RowCursor option"
  r_merged_rows :: int
  r_olap_table :: OLAPTable
  r_keys_param :: KeysParam
  r_collect_iter :: CollectIterator
  r_data_sources :: "ColumnData list"
  r_delete_handler :: DeleteHandler
  r_stats :: OlapReaderStatistics
  r_return_columns :: "nat list"
  r_key_cids :: "nat list"
  r_value_cids :: "nat list"
  r_conditions :: "(nat \<times> Cond list) list"
  r_load_bf_columns :: "nat set"
  r_scanner_row_num :: int

definition reader_view :: "Reader \<Rightarrow> ReaderView" where
  "reader_view r =
     \<lparr>rv_schema = tablet_schema (r_olap_table r), rv_delete_handler = r_delete_handler r\<rparr>"

text \<open>
  Modelled from the spec: \<open>RowCursor::cmp\<close> on two scan keys (\<open>row_cursor.h\<close> is not at
  hand) compares their fields in order; negative, zero or positive.
\<close>

definition RowCursor_cmp :: "RowCursor \<Rightarrow> RowCursor \<Rightarrow> int" where
  "RowCursor_cmp a b = (if a < b then - 1 else if a = b then 0 else 1)"

text \<open>
  Lines 689 to 739 of \<open>_attach_data_to_merge_set\<close>: what one pass of the loop decides
  for the scan range \<open>cur_key_index\<close> before it touches a segment. \<open>end_keys\<close> is a
  \<open>std::vector\<close> read with \<open>operator[]\<close>, which checks nothing.
\<close>

datatype scan_range =
    RangeEof
  | RangeError
  | RangeUndefined ub
  | RangeScan "RowCursor option" bool "RowCursor option" bool

definition resolve_scan_range :: "KeysParam \<Rightarrow> nat \<Rightarrow> scan_range" where
  "resolve_scan_range kp cur_key_index =
     (let start_key = kp_start_keys kp ! cur_key_index in
      if 0 \<noteq> length (kp_end_keys kp) \<and> \<not> cur_key_index < length (kp_end_keys kp)
      then RangeUndefined (OutOfRange ''end_keys'')
      else if 0 \<noteq> length (kp_end_keys kp) \<and> kp_end_range kp \<noteq> ''lt''
              \<and> kp_end_range kp \<noteq> ''le''
      then RangeError
      else
        (let end_key = (if 0 \<noteq> length (kp_end_keys kp)
                        then Some (kp_end_keys kp ! cur_key_index) else None);
             end_key_find_last_row = (0 \<noteq> length (kp_end_keys kp) \<and> kp_end_range kp = ''le'')
         in
         if kp_range kp = ''gt'' then
           (if end_key \<noteq> None \<and> RowCursor_cmp start_key (the end_key) \<ge> 0 then RangeEof
            else RangeScan (Some start_key) True end_key end_key_find_last_row)
         else if kp_range kp = ''ge'' then
           (if end_key \<noteq> None \<and> RowCursor_cmp start_key (the end_key) > 0 then RangeEof
            else RangeScan (Some start_key) False end_key end_key_find_last_row)
         else if kp_range kp = ''eq'' then
           RangeScan (Some start_key) False (Some start_key) True
         else RangeError))"

text \<open>Lines 745 to 761: every segment is positioned and handed to the iterator.\<close>

fun attach_data_sources ::
  "ReaderView \<Rightarrow> ColumnData list \<Rightarrow> RowCursor option \<Rightarrow> bool \<Rightarrow> RowCursor option \<Rightarrow> bool
     \<Rightarrow> CollectIterator \<Rightarrow> OlapReaderStatistics
     \<Rightarrow> outcome \<times> CollectIterator \<times> OlapReaderStatistics" where
  "attach_data_sources rv [] start_key find_last_row end_key end_key_find_last_row it st =
     (Returned OLAP_SUCCESS, it, st)"
| "attach_data_sources rv (d # ds) start_key find_last_row end_key end_key_find_last_row it st =
     (case prepare_block_read d start_key find_last_row end_key end_key_find_last_row of
        (res, block, d') \<Rightarrow>
          if res = OLAP_SUCCESS then
            (case CollectIterator_add_child rv it d' block st of
               (Undefined u, it', st') \<Rightarrow> (Undefined u, it', st')
             | (Returned res2, it', st') \<Rightarrow>
                 if res2 \<noteq> OLAP_SUCCESS \<and> res2 \<noteq> OLAP_ERR_DATA_EOF
                 then (Returned res2, it', st')
                 else attach_data_sources rv ds start_key find_last_row end_key
                        end_key_find_last_row it' st')
          else if res = OLAP_ERR_DATA_EOF then
            attach_data_sources rv ds start_key find_last_row end_key end_key_find_last_row it st
          else (Returned res, it, st))"

text \<open>
  A loop is its body, which either leaves the loop (\<open>Done\<close>, with what is returned or
  handed to the code after the loop) or goes round again (\<open>Again\<close>, with the state of
  the next pass), and a recursive function that repeats the body.
\<close>

datatype ('r, 's) step = Done 'r | Again 's

text \<open>
  \<open>Reader::_attach_data_to_merge_set(first, eof)\<close>: one pass of the
  \<open>do ... while (NULL == _next_key)\<close> loop over the scan ranges. The results are the
  status, \<open>*eof\<close> and the reader. A pass that finds no row goes round again with
  \<open>first = false\<close>.
\<close>

definition attach_step :: "bool \<Rightarrow> Reader \<Rightarrow> (outcome \<times> bool \<times> Reader, Reader) step" where
  "attach_step first r =
     (let r1 = r\<lparr>r_collect_iter := CollectIterator_clear (r_collect_iter r)\<rparr>;
          kp = r_keys_param r
      in
      if length (kp_start_keys kp) > 0 \<and> r_next_key_index r \<ge> length (kp_start_keys kp)
      then Done (Returned OLAP_SUCCESS, True, r1)
      else if \<not> length (kp_start_keys kp) > 0 \<and> \<not> first
      then Done (Returned OLAP_SUCCESS, True, r1)
      else
        (let r2 = (if length (kp_start_keys kp) > 0
                   then r1\<lparr>r_next_key_index := r_next_key_index r + 1\<rparr> else r1);
             range = (if length (kp_start_keys kp) > 0
                      then resolve_scan_range kp (r_next_key_index r)
                      else RangeScan None False None False)
         in
         case range of
           RangeEof \<Rightarrow> Done (Returned OLAP_SUCCESS, True, r2)
         | RangeError \<Rightarrow> Done (Returned OLAP_ERR_READER_GET_ITERATOR_ERROR, False, r2)
         | RangeUndefined u \<Rightarrow> Done (Undefined u, False, r2)
         | RangeScan start_key find_last_row end_key end_key_find_last_row \<Rightarrow>
             (case attach_data_sources (reader_view r) (r_data_sources r) start_key find_last_row
                     end_key end_key_find_last_row (r_collect_iter r1) (r_stats r) of
                (Undefined u, it', st') \<Rightarrow>
                  Done (Undefined u, False, r2\<lparr>r_collect_iter := it', r_stats := st'\<rparr>)
              | (Returned res, it', st') \<Rightarrow>
                  if res \<noteq> OLAP_SUCCESS
                  then Done (Returned res, False, r2\<lparr>r_collect_iter := it', r_stats := st'\<rparr>)
                  else
                    (case CollectIterator_current_row it' of
                       (next_key, flag) \<Rightarrow>
                         (let r3 = r2\<lparr>r_collect_iter := it', r_stats := st',
                                       r_next_key := next_key,
                                       r_next_delete_flag :=
                                         (case flag of Some f \<Rightarrow> f
                                          | None \<Rightarrow> r_next_delete_flag r)\<rparr>
                          in if next_key \<noteq> None then Done (Returned OLAP_SUCCESS, False, r3)
                             else Again r3)))))"

definition ranges_left :: "Reader \<Rightarrow> nat" where
  "ranges_left r = length (kp_start_keys (r_keys_param r)) - r_next_key_index r"

lemma attach_step_Again:
  "attach_step first r = Again r' \<Longrightarrow>
     r_keys_param r' = r_keys_param r \<and> r_next_key r' = None
     \<and> (if kp_start_keys (r_keys_param r) = [] then first \<and> r_next_key_index r' = r_next_key_index r
          else r_next_key_index r < length (kp_start_keys (r_keys_param r))
               \<and> r_next_key_index r' = r_next_key_index r + 1)"
  by (auto simp: attach_step_def Let_def
           split: if_splits scan_range.splits prod.splits outcome.splits)

function attach_data_to_merge_set :: "bool \<Rightarrow> Reader \<Rightarrow> outcome \<times> bool \<times> Reader" where
  "attach_data_to_merge_set first r =
     (case attach_step first r of
        Done result \<Rightarrow> result
      | Again r' \<Rightarrow> attach_data_to_merge_set False r')"
  by pat_completeness auto
termination
proof (relation "measure (\<lambda>(first, r). ranges_left r + (if first then 1 else 0))")
  show "wf (measure (\<lambda>(first, r). ranges_left r + (if first then 1 else 0)))"
    by simp
next
  fix first r r'
  assume "attach_step first r = Again r'"
  from attach_step_Again[OF this]
  show "((False, r'), (first, r))
          \<in> measure (\<lambda>(first, r). ranges_left r + (if first then 1 else 0))"
    by (auto simp: ranges_left_def split: if_splits)
qed

declare attach_data_to_merge_set.simps [simp del]

section \<open>Termination of the iterator\<close>

text \<open>
  Every call of \<open>ChildCtx::next\<close> that returns uses up a row or a block of its
  segment: the rows and blocks a child still holds are the measure that ends the loops
  of the reader.
\<close>

definition child_size :: "ChildCtx \<Rightarrow> nat" where
  "child_size c =
     (case cc_row_block c of None \<Rightarrow> 0 | Some b \<Rightarrow> block_size b)
       + sum_list (map block_size (cd_blocks (cc_data c)))"

definition iter_size :: "CollectIterator \<Rightarrow> nat" where
  "iter_size it = sum_list (map child_size (it_children it))"

lemma refresh_loop_size:
  "refresh_loop rv c b st = (res, c', st') \<Longrightarrow>
     (res = OLAP_SUCCESS \<longrightarrow>
        child_size c' \<le> block_size b + sum_list (map block_size (cd_blocks (cc_data c)))
        \<and> (\<not> has_remaining b \<longrightarrow>
             child_size c' < block_size b + sum_list (map block_size (cd_blocks (cc_data c)))))
     \<and> (res \<noteq> OLAP_SUCCESS \<longrightarrow> child_size c' = 0)"
proof (induction rv c b st rule: refresh_loop.induct)
  case (1 rv c b st)
  show ?case
  proof (cases "has_remaining b")
    case True
    show ?thesis
    proof (cases "rb_block_status b = DEL_PARTIAL_SATISFIED
            \<and> dh_is_filter_data (rv_delete_handler rv) (cd_version (cc_data c)) (rb_rows b ! rb_pos b)")
      case filt: True
      have "refresh_loop rv c (pos_inc b) (st\<lparr>rows_del_filtered := rows_del_filtered st + 1\<rparr>) = (res, c', st')"
        using "1.prems" True filt by (subst (asm) refresh_loop.simps) (simp add: Let_def)
      from "1.IH"(1)[OF True refl filt this] True
      show ?thesis by (auto simp: block_size_def pos_inc_def has_remaining_def)
    next
      case False
      then have "res = OLAP_SUCCESS" "c' = c\<lparr>cc_row_block := Some b, cc_current_row := Some (rb_rows b ! rb_pos b)\<rparr>"
        using "1.prems" True by (subst (asm) refresh_loop.simps; auto simp: Let_def)+
      then show ?thesis using True by (simp add: child_size_def)
    qed
  next
    case False
    show ?thesis
    proof (cases "cd_blocks (cc_data c)")
      case Nil
      then show ?thesis using "1.prems" False
        by (subst (asm) refresh_loop.simps) (auto simp: get_next_block_def child_size_def split: if_splits)
    next
      case (Cons b' bs)
      have g: "get_next_block (cc_data c) = (OLAP_SUCCESS, Some b', (cc_data c)\<lparr>cd_blocks := bs\<rparr>)"
        using Cons by (simp add: get_next_block_def)
      have rl: "refresh_loop rv (c\<lparr>cc_data := (cc_data c)\<lparr>cd_blocks := bs\<rparr>\<rparr>) b' st = (res, c', st')"
        using "1.prems" False g by (subst (asm) refresh_loop.simps) simp
      have ne: "\<not> OLAP_SUCCESS \<noteq> OLAP_SUCCESS" by simp
      from "1.IH"(2)[OF False g[symmetric] refl ne refl rl]
      show ?thesis using Cons by (auto simp: block_size_def)
    qed
  qed
qed


lemma ChildCtx_next_size:
  assumes "ChildCtx_next rv c st = (Returned res, c', st')"
  shows "child_size c' < child_size c"
proof -
  from assms obtain b where b: "cc_row_block c = Some b"
    by (auto simp: ChildCtx_next_def split: option.splits)
  let ?c = "c\<lparr>cc_row_block := Some (pos_inc b)\<rparr>"
  from assms b have rl: "refresh_loop rv ?c (pos_inc b) st = (res, c', st')"
    by (auto simp: ChildCtx_next_def ChildCtx_refresh_current_row_def split: prod.splits)
  from refresh_loop_size[OF rl] b show ?thesis
    by (cases "res = OLAP_SUCCESS"; cases "has_remaining b")
       (auto simp: child_size_def block_size_def pos_inc_def has_remaining_def)
qed

lemma sum_list_update_less:
  "i < length xs \<Longrightarrow> f y < f (xs ! i) \<Longrightarrow>
     sum_list (map f (xs[i := y])) < (sum_list (map f xs) :: nat)"
proof (induction xs arbitrary: i)
  case Nil
  then show ?case by simp
next
  case (Cons x xs)
  then show ?case by (cases i) auto
qed

lemma CollectIterator_next_size:
  assumes "CollectIterator_next rv it st = (Returned res, k, f, it', st')"
  shows "iter_size it' < iter_size it"
proof (cases "it_merge it")
  case True
  with assms have m: "CollectIterator_merge_next rv it st = (Returned res, k, f, it', st')"
    by (simp add: CollectIterator_next_def)
  then obtain i c' st1 r1 where i: "it_cur_child it = Some i" "i < length (it_children it)"
    and n: "ChildCtx_next rv (it_children it ! i) st = (Returned r1, c', st1)"
    and cs: "it_children it' = (it_children it)[i := c']"
    by (auto simp: CollectIterator_merge_next_def Let_def
             split: if_splits option.splits prod.splits outcome.splits)
  from ChildCtx_next_size[OF n] i cs show ?thesis
    by (simp add: iter_size_def sum_list_update_less)
next
  case False
  with assms have m: "CollectIterator_normal_next rv it st = (Returned res, k, f, it', st')"
    by (simp add: CollectIterator_next_def)
  then obtain i c' st1 r1 where i: "it_cur_child it = Some i" "i < length (it_children it)"
    and n: "ChildCtx_next rv (it_children it ! i) st = (Returned r1, c', st1)"
    and cs: "it_children it' = (it_children it)[i := c']"
    by (auto simp: CollectIterator_normal_next_def Let_def
             split: if_splits option.splits prod.splits outcome.splits)
  from ChildCtx_next_size[OF n] i cs show ?thesis
    by (simp add: iter_size_def sum_list_update_less)
qed


lemma CollectIterator_next_size_sym:
  "(Returned res, k, f, it', st') = CollectIterator_next rv it st \<Longrightarrow>
     iter_size it' < iter_size it"
  by (rule CollectIterator_next_size[OF sym])

section \<open>Row production\<close>

text \<open>
  Modelled from the spec: \<open>RowCursor::agg_init\<close>, \<open>RowCursor::aggregate\<close> and
  \<open>RowCursor::finalize_one_merge\<close> (\<open>row_cursor.h\<close> is not at hand).
  \<open>agg_init(output, peek)\<close> copies the row; \<open>aggregate(value_cids, dst, src)\<close> folds
  \<open>src\<close> into \<open>dst\<close> on every listed column under the column's declared aggregation;
  \<open>finalize_one_merge\<close> closes the aggregation state, which on plain values changes
  nothing.
\<close>

definition agg_init :: "RowCursor \<Rightarrow> RowCursor" where
  "agg_init src = src"

definition agg_update :: "FieldAggregationMethod \<Rightarrow> int \<Rightarrow> int \<Rightarrow> int" where
  "agg_update m a b =
     (case m of
        OLAP_FIELD_AGGREGATION_NONE \<Rightarrow> a
      | OLAP_FIELD_AGGREGATION_SUM \<Rightarrow> a + b
      | OLAP_FIELD_AGGREGATION_MIN \<Rightarrow> min a b
      | OLAP_FIELD_AGGREGATION_MAX \<Rightarrow> max a b
      | OLAP_FIELD_AGGREGATION_REPLACE \<Rightarrow> b)"

definition RowCursor_aggregate ::
  "FieldInfo list \<Rightarrow> nat list \<Rightarrow> RowCursor \<Rightarrow> RowCursor \<Rightarrow> RowCursor" where
  "RowCursor_aggregate sch cids dst src =
     fold (\<lambda>c d. if c < length sch
                  then d[c := agg_update (fi_aggregation (sch ! c)) (col d c) (col src c)]
                  else d) cids dst"

definition finalize_one_merge :: "nat list \<Rightarrow> RowCursor \<Rightarrow> RowCursor" where
  "finalize_one_merge cids row = row"

text \<open>
  \<open>_collect_iter->next(&_next_key, &_next_delete_flag)\<close> writes the two out-parameters
  into the reader.
\<close>

definition set_next :: "Reader \<Rightarrow> RowCursor option \<Rightarrow> bool \<Rightarrow> CollectIterator
     \<Rightarrow> OlapReaderStatistics \<Rightarrow> Reader" where
  "set_next r k f it st =
     r\<lparr>r_collect_iter := it, r_stats := st, r_next_key := k, r_next_delete_flag := f\<rparr>"

text \<open>
  \<open>Reader::_agg_key_next_row\<close>: the body of its \<open>do ... while (true)\<close> loop. A result
  \<open>Returned OLAP_SUCCESS\<close> of the loop stands for \<open>break\<close>, every other one for the
  \<open>return res\<close> inside the loop.
\<close>

definition agg_merge_step ::
  "Reader \<Rightarrow> RowCursor \<Rightarrow> int
     \<Rightarrow> (outcome \<times> Reader \<times> RowCursor \<times> int, Reader \<times> RowCursor \<times> int) step" where
  "agg_merge_step r row_cursor merged_count =
     (case CollectIterator_next (reader_view r) (r_collect_iter r) (r_stats r) of
        (Undefined u, k, f, it', st') \<Rightarrow> Done (Undefined u, r, row_cursor, merged_count)
      | (Returned res, k, f, it', st') \<Rightarrow>
          (let r' = set_next r k f it' st' in
           if res \<noteq> OLAP_SUCCESS then
             (if res \<noteq> OLAP_ERR_DATA_EOF
              then Done (Returned res, r', row_cursor, merged_count)
              else Done (Returned OLAP_SUCCESS, r', row_cursor, merged_count))
           else if r_aggregation r \<and> merged_count > r_scanner_row_num r
           then Done (Returned OLAP_SUCCESS, r', row_cursor, merged_count)
           else
             (case k of
                None \<Rightarrow> Done (Undefined NullDeref, r', row_cursor, merged_count)
              | Some next_key \<Rightarrow>
                  if \<not> RowCursor_equal (r_key_cids r) row_cursor next_key
                  then Done (Returned OLAP_SUCCESS, r', row_cursor, merged_count)
                  else Again (r',
                              RowCursor_aggregate (tablet_schema (r_olap_table r))
                                (r_value_cids r) row_cursor next_key,
                              merged_count + 1))))"

lemma agg_merge_step_Again:
  "agg_merge_step r row mc = Again (r', row', mc') \<Longrightarrow>
     iter_size (r_collect_iter r') < iter_size (r_collect_iter r)"
  by (auto simp: agg_merge_step_def Let_def set_next_def
           split: prod.splits outcome.splits if_splits option.splits
           dest: CollectIterator_next_size)

function agg_merge_loop ::
  "Reader \<Rightarrow> RowCursor \<Rightarrow> int \<Rightarrow> outcome \<times> Reader \<times> RowCursor \<times> int" where
  "agg_merge_loop r row_cursor merged_count =
     (case agg_merge_step r row_cursor merged_count of
        Done result \<Rightarrow> result
      | Again (r', row_cursor', merged_count') \<Rightarrow> agg_merge_loop r' row_cursor' merged_count')"
  by pat_completeness auto
termination
  by (relation "measure (\<lambda>(r, row_cursor, merged_count). iter_size (r_collect_iter r))")
     (auto dest: agg_merge_step_Again)

declare agg_merge_loop.simps [simp del]

text \<open>
  \<open>Reader::_agg_key_next_row(row_cursor, eof)\<close>: the results are the status, \<open>*eof\<close>,
  the caller's \<open>row_cursor\<close> and the reader.
\<close>

definition agg_key_next_row ::
  "Reader \<Rightarrow> RowCursor \<Rightarrow> outcome \<times> bool \<times> RowCursor \<times> Reader" where
  "agg_key_next_row r row_cursor =
     (case (if r_next_key r = None then attach_data_to_merge_set False r
            else (Returned OLAP_SUCCESS, False, r)) of
        (Undefined u, eof, r1) \<Rightarrow> (Undefined u, eof, row_cursor, r1)
      | (Returned res, eof, r1) \<Rightarrow>
          if res \<noteq> OLAP_SUCCESS then (Returned res, eof, row_cursor, r1)
          else if eof then (Returned OLAP_SUCCESS, True, row_cursor, r1)
          else
            (case r_next_key r1 of
               None \<Rightarrow> (Undefined NullDeref, False, row_cursor, r1)
             | Some next_key \<Rightarrow>
                 (case agg_merge_loop r1 (agg_init next_key) 0 of
                    (out, r2, row, merged_count) \<Rightarrow>
                      if out \<noteq> Returned OLAP_SUCCESS then (out, False, row, r2)
                      else (Returned OLAP_SUCCESS, False,
                            finalize_one_merge (r_value_cids r2) row,
                            r2\<lparr>r_merged_rows := r_merged_rows r2 + merged_count\<rparr>))))"








lemma attach_step_Done:
  "attach_step first r = Done (out, eof, r') \<Longrightarrow>
     r_keys_param r' = r_keys_param r
     \<and> r_next_key_index r \<le> r_next_key_index r'
     \<and> (out = Returned OLAP_SUCCESS \<and> \<not> eof \<longrightarrow>
          r_next_key r' \<noteq> None
          \<and> (if kp_start_keys (r_keys_param r) = [] then first
               else r_next_key_index r < length (kp_start_keys (r_keys_param r))
                    \<and> r_next_key_index r' = r_next_key_index r + 1))"
  by (auto simp: attach_step_def Let_def
           split: if_splits scan_range.splits prod.splits outcome.splits)







section \<open>The rows a segment cursor still holds\<close>

text \<open>
  \<open>pending\<close> lists the rows a child will show from the block \<open>b\<close> on: the rows of
  \<open>b\<close> from its position and of the blocks to come, without those the delete handler
  filters. A child is \<open>live\<close> when its current row is the row at the position of its
  block.
\<close>

definition row_filtered :: "ReaderView \<Rightarrow> int \<Rightarrow> RowBlock \<Rightarrow> RowCursor \<Rightarrow> bool" where
  "row_filtered rv ver b row =
     (rb_block_status b = DEL_PARTIAL_SATISFIED \<and> dh_is_filter_data (rv_delete_handler rv) ver row)"

definition block_rows :: "ReaderView \<Rightarrow> int \<Rightarrow> RowBlock \<Rightarrow> RowCursor list" where
  "block_rows rv ver b = filter (\<lambda>row. \<not> row_filtered rv ver b row) (drop (rb_pos b) (rb_rows b))"

definition pending :: "ReaderView \<Rightarrow> ChildCtx \<Rightarrow> RowBlock \<Rightarrow> RowCursor list" where
  "pending rv c b =
     block_rows rv (version c) b @ concat (map (block_rows rv (version c)) (cd_blocks (cc_data c)))"

definition live :: "ReaderView \<Rightarrow> ChildCtx \<Rightarrow> RowBlock \<Rightarrow> bool" where
  "live rv c b =
     (cc_row_block c = Some b \<and> has_remaining b
      \<and> cc_current_row c = Some (rb_rows b ! rb_pos b)
      \<and> \<not> row_filtered rv (version c) b (rb_rows b ! rb_pos b))"

lemma refresh_loop_rows:
  "refresh_loop rv c b st = (res, c', st') \<Longrightarrow>
     version c' = version c \<and> cc_is_delete c' = cc_is_delete c
     \<and> (res = OLAP_SUCCESS \<longrightarrow>
          (\<exists>b'. live rv c' b' \<and> pending rv c' b' = pending rv c b))
     \<and> (res \<noteq> OLAP_SUCCESS \<longrightarrow> cc_current_row c' = None)"
proof (induction rv c b st rule: refresh_loop.induct)
  case (1 rv c b st)
  show ?case
  proof (cases "has_remaining b")
    case True
    then have dr: "drop (rb_pos b) (rb_rows b) = rb_rows b ! rb_pos b # drop (Suc (rb_pos b)) (rb_rows b)"
      by (simp add: has_remaining_def Cons_nth_drop_Suc)
    show ?thesis
    proof (cases "rb_block_status b = DEL_PARTIAL_SATISFIED
            \<and> dh_is_filter_data (rv_delete_handler rv) (cd_version (cc_data c)) (rb_rows b ! rb_pos b)")
      case filt: True
      have rl: "refresh_loop rv c (pos_inc b) (st\<lparr>rows_del_filtered := rows_del_filtered st + 1\<rparr>) = (res, c', st')"
        using "1.prems" True filt by (subst (asm) refresh_loop.simps) (simp add: Let_def)
      have "pending rv c (pos_inc b) = pending rv c b"
        using filt dr by (simp add: pending_def block_rows_def row_filtered_def pos_inc_def version_def)
      with "1.IH"(1)[OF True refl filt rl] show ?thesis by simp
    next
      case False
      then have "res = OLAP_SUCCESS" "c' = c\<lparr>cc_row_block := Some b, cc_current_row := Some (rb_rows b ! rb_pos b)\<rparr>"
        using "1.prems" True by (subst (asm) refresh_loop.simps; auto simp: Let_def)+
      then show ?thesis using True False
        by (auto simp: live_def pending_def version_def row_filtered_def intro!: exI[of _ b])
    qed
  next
    case False
    then have dr: "drop (rb_pos b) (rb_rows b) = []" by (simp add: has_remaining_def)
    show ?thesis
    proof (cases "cd_blocks (cc_data c)")
      case Nil
      then show ?thesis using "1.prems" False
        by (subst (asm) refresh_loop.simps) (auto simp: get_next_block_def version_def split: if_splits)
    next
      case (Cons b' bs)
      have g: "get_next_block (cc_data c) = (OLAP_SUCCESS, Some b', (cc_data c)\<lparr>cd_blocks := bs\<rparr>)"
        using Cons by (simp add: get_next_block_def)
      have rl: "refresh_loop rv (c\<lparr>cc_data := (cc_data c)\<lparr>cd_blocks := bs\<rparr>\<rparr>) b' st = (res, c', st')"
        using "1.prems" False g by (subst (asm) refresh_loop.simps) simp
      have ne: "\<not> OLAP_SUCCESS \<noteq> OLAP_SUCCESS" by simp
      have "pending rv (c\<lparr>cc_data := (cc_data c)\<lparr>cd_blocks := bs\<rparr>\<rparr>) b' = pending rv c b"
        using Cons dr by (simp add: pending_def block_rows_def version_def)
      with "1.IH"(2)[OF False g[symmetric] refl ne refl rl]
      show ?thesis by (simp add: version_def)
    qed
  qed
qed


section \<open>Example inputs\<close>

text \<open>
  A schema of one key column and one value column, a delete handler that filters nothing,
  and segments of one block each.
\<close>

definition example_view :: ReaderView where
  "example_view =
     \<lparr>rv_schema = [\<lparr>fi_type = OLAP_FIELD_TYPE_INT, fi_is_key = True, fi_is_bf_column = False,
                    fi_aggregation = OLAP_FIELD_AGGREGATION_NONE\<rparr>,
                   \<lparr>fi_type = OLAP_FIELD_TYPE_INT, fi_is_key = False, fi_is_bf_column = False,
                    fi_aggregation = OLAP_FIELD_AGGREGATION_REPLACE\<rparr>],
      rv_delete_handler = \<lparr>dh_is_filter_data = (\<lambda>v row. False), dh_delete_conditions = []\<rparr>\<rparr>"

definition example_segment :: "int \<Rightarrow> bool \<Rightarrow> RowCursor list \<Rightarrow> ColumnData" where
  "example_segment ver del rows =
     \<lparr>cd_version = ver, cd_delete_flag = del, cd_row_cursor_init = OLAP_SUCCESS,
      cd_prepare = (\<lambda>start_key find_last_row end_key end_key_find_last_row.
         (OLAP_SUCCESS,
          Some \<lparr>rb_rows = rows, rb_pos = 0, rb_block_status = DEL_NOT_SATISFIED\<rparr>,
          [], OLAP_ERR_DATA_EOF)),
      cd_blocks = [], cd_end = OLAP_ERR_DATA_EOF\<rparr>"

definition example_block :: "RowCursor list \<Rightarrow> RowBlock" where
  "example_block rows = \<lparr>rb_rows = rows, rb_pos = 0, rb_block_status = DEL_NOT_SATISFIED\<rparr>"

definition no_stats :: OlapReaderStatistics where
  "no_stats = \<lparr>rows_del_filtered = 0, rows_stats_filtered = 0\<rparr>"

section \<open>C4: a child without a current row\<close>




section \<open>The scan-range driver\<close>

text \<open>
  An example reader as \<open>_init_params\<close> leaves it for a tablet of the example schema:
  nothing read yet, the iterator created and initialised, the return columns split into
  the key column and the value column.
\<close>

definition example_table :: "KeysType \<Rightarrow> OLAPTable" where
  "example_table kt =
     \<lparr>tablet_schema = rv_schema example_view, keys_type = kt, num_short_key_fields = 1,
      get_field_type_by_index = (\<lambda>i. OLAP_FIELD_TYPE_INT)\<rparr>"

definition example_reader ::
  "KeysType \<Rightarrow> ReaderType \<Rightarrow> bool \<Rightarrow> KeysParam \<Rightarrow> ColumnData list \<Rightarrow> Reader" where
  "example_reader kt rtype aggr kp segments =
     \<lparr>r_next_key_index = 0, r_aggregation = aggr, r_reader_type = rtype,
      r_next_delete_flag = False, r_next_key = None, r_merged_rows = 0,
      r_olap_table = example_table kt, r_keys_param = kp,
      r_collect_iter = CollectIterator_init rtype aggr kt CollectIterator_new,
      r_data_sources = segments, r_delete_handler = rv_delete_handler example_view,
      r_stats = no_stats, r_return_columns = [0, 1], r_key_cids = [0], r_value_cids = [1],
      r_conditions = [], r_load_bf_columns = {}, r_scanner_row_num = 1024\<rparr>"

text \<open>
  C6: in the scan range \<open>_next_key_index\<close> with an end key (the end-key list reaches
  the index and \<open>end_range\<close> is one of \<open>lt\<close> and \<open>le\<close>, so that \<open>end_key\<close> is
  not null when the range is tested), if \<open>range\<close> is \<open>gt\<close> and
  \<open>start_key->cmp(*end_key) >= 0\<close>, or \<open>range\<close> is \<open>ge\<close> and
  \<open>start_key->cmp(*end_key) > 0\<close>, then \<open>_attach_data_to_merge_set\<close> returns at
  once with \<open>OLAP_SUCCESS\<close> and \<open>*eof = true\<close>; the iterator is the cleared one, with
  no child and an empty heap, and nothing but the range index has changed.
\<close>

theorem attach_early_eof:
  assumes "r_next_key_index r < length (kp_start_keys (r_keys_param r))"
    and "r_next_key_index r < length (kp_end_keys (r_keys_param r))"
    and "kp_end_range (r_keys_param r) = ''lt'' \<or> kp_end_range (r_keys_param r) = ''le''"
    and "(kp_range (r_keys_param r) = ''gt''
            \<and> RowCursor_cmp (kp_start_keys (r_keys_param r) ! r_next_key_index r)
                 (kp_end_keys (r_keys_param r) ! r_next_key_index r) \<ge> 0)
         \<or> (kp_range (r_keys_param r) = ''ge''
            \<and> RowCursor_cmp (kp_start_keys (r_keys_param r) ! r_next_key_index r)
                 (kp_end_keys (r_keys_param r) ! r_next_key_index r) > 0)"
  shows "attach_data_to_merge_set first r =
           (Returned OLAP_SUCCESS, True,
            r\<lparr>r_collect_iter := CollectIterator_clear (r_collect_iter r),
              r_next_key_index := r_next_key_index r + 1\<rparr>)
         \<and> it_children (CollectIterator_clear (r_collect_iter r)) = []
         \<and> it_heap (CollectIterator_clear (r_collect_iter r)) = []"
proof -
  have "resolve_scan_range (r_keys_param r) (r_next_key_index r) = RangeEof"
    using assms by (auto simp: resolve_scan_range_def Let_def)
  then have "attach_step first r =
      Done (Returned OLAP_SUCCESS, True,
            r\<lparr>r_collect_iter := CollectIterator_clear (r_collect_iter r),
              r_next_key_index := r_next_key_index r + 1\<rparr>)"
    using assms(1) by (auto simp: attach_step_def Let_def)
  then show ?thesis
    by (simp add: attach_data_to_merge_set.simps CollectIterator_clear_def)
qed

theorem attach_early_eof_witness:
  "attach_data_to_merge_set False
     (example_reader UNIQUE_KEYS READER_QUERY False
        \<lparr>kp_range = ''gt'', kp_end_range = ''le'', kp_start_keys = [[5]], kp_end_keys = [[5]]\<rparr>
        [example_segment 5 False [[5, 1]]])
   = (Returned OLAP_SUCCESS, True,
      (example_reader UNIQUE_KEYS READER_QUERY False
        \<lparr>kp_range = ''gt'', kp_end_range = ''le'', kp_start_keys = [[5]], kp_end_keys = [[5]]\<rparr>
        [example_segment 5 False [[5, 1]]])\<lparr>r_next_key_index := 1\<rparr>)"
  using attach_early_eof[of "example_reader UNIQUE_KEYS READER_QUERY False
        \<lparr>kp_range = ''gt'', kp_end_range = ''le'', kp_start_keys = [[5]], kp_end_keys = [[5]]\<rparr>
        [example_segment 5 False [[5, 1]]]" False]
  by (simp add: example_reader_def RowCursor_cmp_def CollectIterator_clear_def
        CollectIterator_init_def CollectIterator_new_def)

text \<open>Reading \<open>end_keys[cur_key_index]\<close>.\<close>

lemma add_child_not_end_keys:
  "fst (CollectIterator_add_child rv it d block st) \<noteq> Undefined (OutOfRange ''end_keys'')"
  by (auto simp: CollectIterator_add_child_def ChildCtx_init_def Let_def
        ChildCtx_refresh_current_row_def
        split: prod.splits outcome.splits option.splits if_splits)

lemma attach_data_sources_not_end_keys:
  "fst (attach_data_sources rv ds sk flr ek eflr it st) \<noteq> Undefined (OutOfRange ''end_keys'')"
proof (induction ds arbitrary: it st)
  case Nil
  then show ?case by simp
next
  case (Cons d ds)
  obtain res block d' where p: "prepare_block_read d sk flr ek eflr = (res, block, d')"
    by (metis prod_cases3)
  obtain out it' st' where a: "CollectIterator_add_child rv it d' block st = (out, it', st')"
    by (metis prod_cases3)
  from add_child_not_end_keys[of rv it d' block st] a
  have "out \<noteq> Undefined (OutOfRange ''end_keys'')" by simp
  with p a Cons.IH show ?case
    by (cases out) (auto)
qed

lemma attach_step_in_bounds:
  assumes "length (kp_end_keys (r_keys_param r)) = length (kp_start_keys (r_keys_param r))
           \<or> kp_end_keys (r_keys_param r) = []"
    and "attach_step first r = Done (out, eof, r')"
  shows "out \<noteq> Undefined (OutOfRange ''end_keys'')"
proof -
  have rs: "r_next_key_index r < length (kp_start_keys (r_keys_param r)) \<Longrightarrow>
        resolve_scan_range (r_keys_param r) (r_next_key_index r)
          \<noteq> RangeUndefined (OutOfRange ''end_keys'')"
    using assms(1) by (auto simp: resolve_scan_range_def Let_def)
  have ds: "\<And>sk flr ek eflr it st it' st'.
       attach_data_sources (reader_view r) (r_data_sources r) sk flr ek eflr it st
         \<noteq> (Undefined (OutOfRange ''end_keys''), it', st')"
    using attach_data_sources_not_end_keys
    by (metis fst_conv)
  show ?thesis
    using assms(2) rs ds
    by (auto simp: attach_step_def Let_def
             split: if_splits scan_range.splits prod.splits outcome.splits)
qed

lemma attach_in_bounds:
  "length (kp_end_keys (r_keys_param r)) = length (kp_start_keys (r_keys_param r))
     \<or> kp_end_keys (r_keys_param r) = [] \<Longrightarrow>
   fst (attach_data_to_merge_set first r) \<noteq> Undefined (OutOfRange ''end_keys'')"
proof (induction first r rule: attach_data_to_merge_set.induct)
  case (1 first r)
  show ?case
  proof (cases "attach_step first r")
    case (Done result)
    obtain out eof r' where "result = (out, eof, r')" by (metis prod_cases3)
    with Done attach_step_in_bounds[OF "1.prems"] show ?thesis
      by (simp add: attach_data_to_merge_set.simps)
  next
    case (Again r1)
    from attach_step_Again[OF Again] "1.prems"
    have "length (kp_end_keys (r_keys_param r1)) = length (kp_start_keys (r_keys_param r1))
           \<or> kp_end_keys (r_keys_param r1) = []" by simp
    from "1.IH"[OF Again this] Again show ?thesis
      by (simp add: attach_data_to_merge_set.simps)
  qed
qed

text \<open>
  C8: when \<open>start_keys\<close> and \<open>end_keys\<close> have the same length, or \<open>end_keys\<close> is
  empty, no pass of the scan-range driver reads \<open>end_keys[cur_key_index]\<close> out of
  bounds; and the read is unchecked: there is a reader whose \<open>end_keys\<close> is not empty
  and shorter than \<open>start_keys\<close> for which the driver reads past the end of
  \<open>end_keys\<close>.
\<close>

theorem end_keys_access:
  "(length (kp_end_keys (r_keys_param r)) = length (kp_start_keys (r_keys_param r))
       \<or> kp_end_keys (r_keys_param r) = [] \<longrightarrow>
     fst (attach_data_to_merge_set first r) \<noteq> Undefined (OutOfRange ''end_keys''))
   \<and> (\<exists>r'. kp_end_keys (r_keys_param r') \<noteq> []
          \<and> length (kp_end_keys (r_keys_param r')) < length (kp_start_keys (r_keys_param r'))
          \<and> fst (attach_data_to_merge_set True r') = Undefined (OutOfRange ''end_keys''))"
proof
  show "length (kp_end_keys (r_keys_param r)) = length (kp_start_keys (r_keys_param r))
       \<or> kp_end_keys (r_keys_param r) = [] \<longrightarrow>
     fst (attach_data_to_merge_set first r) \<noteq> Undefined (OutOfRange ''end_keys'')"
    using attach_in_bounds by blast
next
  let ?r = "example_reader UNIQUE_KEYS READER_QUERY False
        \<lparr>kp_range = ''ge'', kp_end_range = ''le'', kp_start_keys = [[1], [7]],
         kp_end_keys = [[3]]\<rparr> []"
  have 1: "attach_step True ?r = Again (?r\<lparr>r_next_key_index := 1\<rparr>)"
    by (simp add: attach_step_def example_reader_def resolve_scan_range_def RowCursor_cmp_def
          CollectIterator_clear_def CollectIterator_init_def CollectIterator_new_def
          CollectIterator_current_row_def Let_def)
  have 2: "attach_step False (?r\<lparr>r_next_key_index := 1\<rparr>)
             = Done (Undefined (OutOfRange ''end_keys''), False, ?r\<lparr>r_next_key_index := 2\<rparr>)"
    by (simp add: attach_step_def example_reader_def resolve_scan_range_def
          CollectIterator_clear_def CollectIterator_init_def CollectIterator_new_def Let_def)
  have 3: "attach_data_to_merge_set True ?r
             = attach_data_to_merge_set False (?r\<lparr>r_next_key_index := 1\<rparr>)"
    by (subst attach_data_to_merge_set.simps) (simp only: 1 step.case)
  have 4: "attach_data_to_merge_set False (?r\<lparr>r_next_key_index := 1\<rparr>)
             = (Undefined (OutOfRange ''end_keys''), False, ?r\<lparr>r_next_key_index := 2\<rparr>)"
    by (subst attach_data_to_merge_set.simps) (simp only: 2 step.case)
  have "fst (attach_data_to_merge_set True ?r) = Undefined (OutOfRange ''end_keys'')"
    by (simp only: 3 4 fst_conv)
  moreover have "kp_end_keys (r_keys_param ?r) \<noteq> []
      \<and> length (kp_end_keys (r_keys_param ?r)) < length (kp_start_keys (r_keys_param ?r))"
    by (simp add: example_reader_def)
  ultimately show "\<exists>r'. kp_end_keys (r_keys_param r') \<noteq> []
          \<and> length (kp_end_keys (r_keys_param r')) < length (kp_start_keys (r_keys_param r'))
          \<and> fst (attach_data_to_merge_set True r') = Undefined (OutOfRange ''end_keys'')"
    by blast
qed

theorem end_keys_access_witness:
  "fst (attach_data_to_merge_set True
     (example_reader UNIQUE_KEYS READER_QUERY False
        \<lparr>kp_range = ''ge'', kp_end_range = ''le'', kp_start_keys = [[1], [7]],
         kp_end_keys = [[3], [9]]\<rparr> [])) \<noteq> Undefined (OutOfRange ''end_keys'')"
  using end_keys_access[of "example_reader UNIQUE_KEYS READER_QUERY False
        \<lparr>kp_range = ''ge'', kp_end_range = ''le'', kp_start_keys = [[1], [7]],
         kp_end_keys = [[3], [9]]\<rparr> []" True]
  by (simp add: example_reader_def)

section \<open>Reader::_init_return_columns\<close>

text \<open>
  The fields of \<open>ReaderParams\<close> that the two initialisation steps below read. A scan
  key (\<open>OlapTuple\<close>) is the list of its values.
\<close>

type_synonym OlapTuple = "string list"

record ReaderParams =
  rp_reader_type :: ReaderType
  rp_aggregation :: bool
  rp_return_columns :: "nat list"
  rp_start_key :: "OlapTuple list"
  rp_end_key :: "OlapTuple list"

text \<open>
  The loop \<open>for (auto id : ...)\<close> that pushes each column id onto \<open>_key_cids\<close> or
  \<open>_value_cids\<close>. \<open>tablet_schema()[id]\<close> is an unchecked read of a vector: \<open>None\<close>
  when the id is not a column of the schema.
\<close>

fun push_cids ::
  "FieldInfo list \<Rightarrow> nat list \<Rightarrow> nat list \<Rightarrow> nat list \<Rightarrow> (nat list \<times> nat list) option" where
  "push_cids sch [] key_cids value_cids = Some (key_cids, value_cids)"
| "push_cids sch (cid # ids) key_cids value_cids =
     (if \<not> cid < length sch then None
      else if fi_is_key (sch ! cid) then push_cids sch ids (key_cids @ [cid]) value_cids
      else push_cids sch ids key_cids (value_cids @ [cid]))"

text \<open>
  The two nested loops over the delete conditions: a column that is not yet in
  \<open>column_set\<close> (the set of \<open>_return_columns\<close>) is put into both.
\<close>

definition add_delete_columns :: "DeleteHandler \<Rightarrow> nat list \<Rightarrow> nat list" where
  "add_delete_columns dh return_columns =
     fold (\<lambda>cond_column rc. if cond_column \<in> set rc then rc else rc @ [cond_column])
       (concat (dh_delete_conditions dh)) return_columns"

text \<open>\<open>std::sort(..., std::greater<uint32_t>())\<close>.\<close>

definition sort_greater :: "nat list \<Rightarrow> nat list" where
  "sort_greater xs = rev (sort xs)"

definition init_return_columns :: "ReaderParams \<Rightarrow> Reader \<Rightarrow> outcome \<times> Reader" where
  "init_return_columns read_params r =
     (let sch = tablet_schema (r_olap_table r) in
      if rp_reader_type read_params = READER_QUERY then
        (let rc = rp_return_columns read_params;
             rc' = (if conditions_num (r_delete_handler r) \<noteq> 0 \<and> rp_aggregation read_params
                    then add_delete_columns (r_delete_handler r) rc else rc)
         in case push_cids sch (rp_return_columns read_params) (r_key_cids r) (r_value_cids r) of
              None \<Rightarrow> (Undefined (OutOfRange ''tablet_schema''), r\<lparr>r_return_columns := rc'\<rparr>)
            | Some (ks, vs) \<Rightarrow>
                (Returned OLAP_SUCCESS,
                 r\<lparr>r_return_columns := rc', r_key_cids := sort_greater ks, r_value_cids := vs\<rparr>))
      else if length (rp_return_columns read_params) = 0 then
        (case push_cids sch [0..<length sch] (r_key_cids r) (r_value_cids r) of
           None \<Rightarrow> (Undefined (OutOfRange ''tablet_schema''), r)
         | Some (ks, vs) \<Rightarrow>
             (Returned OLAP_SUCCESS,
              r\<lparr>r_return_columns := r_return_columns r @ [0..<length sch],
                r_key_cids := sort_greater ks, r_value_cids := vs\<rparr>))
      else if rp_reader_type read_params = READER_CHECKSUM then
        (case push_cids sch (rp_return_columns read_params) (r_key_cids r) (r_value_cids r) of
           None \<Rightarrow>
             (Undefined (OutOfRange ''tablet_schema''),
              r\<lparr>r_return_columns := rp_return_columns read_params\<rparr>)
         | Some (ks, vs) \<Rightarrow>
             (Returned OLAP_SUCCESS,
              r\<lparr>r_return_columns := rp_return_columns read_params,
                r_key_cids := sort_greater ks, r_value_cids := vs\<rparr>))
      else (Returned OLAP_ERR_INPUT_PARAMETER_ERROR, r))"

lemma push_cids_Some:
  "\<forall>cid \<in> set ids. cid < length sch \<Longrightarrow>
     push_cids sch ids ks vs =
       Some (ks @ filter (\<lambda>cid. fi_is_key (sch ! cid)) ids,
             vs @ filter (\<lambda>cid. \<not> fi_is_key (sch ! cid)) ids)"
  by (induction ids arbitrary: ks vs) auto

lemma set_fold_add:
  "set (fold (\<lambda>c rc. if c \<in> set rc then rc else rc @ [c]) cs rc) = set rc \<union> set cs"
  by (induction cs arbitrary: rc) auto

lemma set_add_delete_columns:
  "set (add_delete_columns dh rc) = set rc \<union> set (concat (dh_delete_conditions dh))"
  unfolding add_delete_columns_def by (rule set_fold_add)

text \<open>
  A reader on which \<open>_init_return_columns\<close> has not run yet: the three vectors are as
  the constructor leaves them.
\<close>

definition fresh_columns :: "Reader \<Rightarrow> bool" where
  "fresh_columns r = (r_return_columns r = [] \<and> r_key_cids r = [] \<and> r_value_cids r = [])"

text \<open>
  C3, as stated: with an empty \<open>return_columns\<close> the reader uses all schema columns,
  for any \<open>reader_type\<close>. It does not for \<open>READER_QUERY\<close>, whose branch comes first:
  the caller's empty list is kept, while the schema has the columns 0 and 1.
\<close>

theorem init_return_columns_empty_counterexample:
  "r_return_columns (snd (init_return_columns
       \<lparr>rp_reader_type = READER_QUERY, rp_aggregation = False, rp_return_columns = [],
        rp_start_key = [], rp_end_key = []\<rparr>
       ((example_reader AGG_KEYS READER_QUERY False
          \<lparr>kp_range = [], kp_end_range = [], kp_start_keys = [], kp_end_keys = []\<rparr> [])
          \<lparr>r_return_columns := [], r_key_cids := [], r_value_cids := []\<rparr>))) = []
   \<and> [0..<length (tablet_schema (example_table AGG_KEYS))] = [0, 1]"
  by (simp add: init_return_columns_def example_reader_def example_table_def example_view_def
        conditions_num_def sort_greater_def Let_def upt_rec)

text \<open>
  C3, amended: with an empty \<open>return_columns\<close> and a \<open>reader_type\<close> other than
  \<open>READER_QUERY\<close> the reader uses all schema columns; for \<open>READER_QUERY\<close> it keeps the
  empty list, to which only the columns of the delete conditions are added when
  \<open>aggregation\<close> is set and there are delete conditions; and with a non-empty
  \<open>return_columns\<close> and a \<open>reader_type\<close> other than \<open>READER_QUERY\<close> and
  \<open>READER_CHECKSUM\<close> it fails with \<open>OLAP_ERR_INPUT_PARAMETER_ERROR\<close> and changes
  nothing.
\<close>

theorem init_return_columns_rules:
  assumes "fresh_columns r"
  shows "(rp_return_columns read_params = [] \<and> rp_reader_type read_params \<noteq> READER_QUERY \<longrightarrow>
            fst (init_return_columns read_params r) = Returned OLAP_SUCCESS
            \<and> r_return_columns (snd (init_return_columns read_params r))
                = [0..<length (tablet_schema (r_olap_table r))])
       \<and> (rp_return_columns read_params = [] \<and> rp_reader_type read_params = READER_QUERY \<longrightarrow>
            fst (init_return_columns read_params r) = Returned OLAP_SUCCESS
            \<and> r_return_columns (snd (init_return_columns read_params r))
                = (if conditions_num (r_delete_handler r) \<noteq> 0 \<and> rp_aggregation read_params
                   then add_delete_columns (r_delete_handler r) [] else []))
       \<and> (rp_return_columns read_params \<noteq> [] \<and> rp_reader_type read_params \<noteq> READER_QUERY
            \<and> rp_reader_type read_params \<noteq> READER_CHECKSUM \<longrightarrow>
            init_return_columns read_params r = (Returned OLAP_ERR_INPUT_PARAMETER_ERROR, r))"
proof -
  have p: "push_cids (tablet_schema (r_olap_table r)) [0..<length (tablet_schema (r_olap_table r))]
             (r_key_cids r) (r_value_cids r) \<noteq> None"
    by (simp add: push_cids_Some)
  show ?thesis
    using assms p
    by (auto simp: init_return_columns_def fresh_columns_def Let_def split: option.splits)
qed

theorem init_return_columns_rules_witness:
  "init_return_columns
       \<lparr>rp_reader_type = READER_BASE_COMPACTION, rp_aggregation = False, rp_return_columns = [1],
        rp_start_key = [], rp_end_key = []\<rparr>
       ((example_reader AGG_KEYS READER_BASE_COMPACTION False
          \<lparr>kp_range = [], kp_end_range = [], kp_start_keys = [], kp_end_keys = []\<rparr> [])
          \<lparr>r_return_columns := [], r_key_cids := [], r_value_cids := []\<rparr>)
     = (Returned OLAP_ERR_INPUT_PARAMETER_ERROR,
        (example_reader AGG_KEYS READER_BASE_COMPACTION False
          \<lparr>kp_range = [], kp_end_range = [], kp_start_keys = [], kp_end_keys = []\<rparr> [])
          \<lparr>r_return_columns := [], r_key_cids := [], r_value_cids := []\<rparr>)
   \<and> r_return_columns (snd (init_return_columns
       \<lparr>rp_reader_type = READER_BASE_COMPACTION, rp_aggregation = False, rp_return_columns = [],
        rp_start_key = [], rp_end_key = []\<rparr>
       ((example_reader AGG_KEYS READER_BASE_COMPACTION False
          \<lparr>kp_range = [], kp_end_range = [], kp_start_keys = [], kp_end_keys = []\<rparr> [])
          \<lparr>r_return_columns := [], r_key_cids := [], r_value_cids := []\<rparr>))) = [0, 1]"
  using init_return_columns_rules[of "(example_reader AGG_KEYS READER_BASE_COMPACTION False
          \<lparr>kp_range = [], kp_end_range = [], kp_start_keys = [], kp_end_keys = []\<rparr> [])
          \<lparr>r_return_columns := [], r_key_cids := [], r_value_cids := []\<rparr>"
        "\<lparr>rp_reader_type = READER_BASE_COMPACTION, rp_aggregation = False, rp_return_columns = [1],
        rp_start_key = [], rp_end_key = []\<rparr>"]
    init_return_columns_rules[of "(example_reader AGG_KEYS READER_BASE_COMPACTION False
          \<lparr>kp_range = [], kp_end_range = [], kp_start_keys = [], kp_end_keys = []\<rparr> [])
          \<lparr>r_return_columns := [], r_key_cids := [], r_value_cids := []\<rparr>"
        "\<lparr>rp_reader_type = READER_BASE_COMPACTION, rp_aggregation = False, rp_return_columns = [],
        rp_start_key = [], rp_end_key = []\<rparr>"]
  by (simp add: fresh_columns_def example_reader_def example_table_def example_view_def upt_rec)


text \<open>
  C9: for \<open>READER_QUERY\<close> with \<open>aggregation\<close> and at least one delete condition (and
  return columns that are columns of the schema), \<open>_return_columns\<close> is the caller's list
  extended by the columns of the delete conditions, while \<open>_key_cids\<close> and
  \<open>_value_cids\<close> split the caller's list only: together they are exactly the caller's
  columns, and a column added for a delete condition is in neither.
\<close>

theorem init_return_columns_split:
  assumes "rp_reader_type read_params = READER_QUERY"
    and "rp_aggregation read_params"
    and "conditions_num (r_delete_handler r) \<noteq> 0"
    and "fresh_columns r"
    and "\<forall>cid \<in> set (rp_return_columns read_params). cid < length (tablet_schema (r_olap_table r))"
    and "r' = snd (init_return_columns read_params r)"
  shows "fst (init_return_columns read_params r) = Returned OLAP_SUCCESS
       \<and> r_return_columns r'
           = add_delete_columns (r_delete_handler r) (rp_return_columns read_params)
       \<and> r_key_cids r'
           = sort_greater (filter (\<lambda>cid. fi_is_key (tablet_schema (r_olap_table r) ! cid))
               (rp_return_columns read_params))
       \<and> r_value_cids r'
           = filter (\<lambda>cid. \<not> fi_is_key (tablet_schema (r_olap_table r) ! cid))
               (rp_return_columns read_params)
       \<and> set (r_key_cids r') \<union> set (r_value_cids r') = set (rp_return_columns read_params)
       \<and> (\<forall>cid \<in> set (r_return_columns r') - set (rp_return_columns read_params).
             cid \<notin> set (r_key_cids r') \<and> cid \<notin> set (r_value_cids r'))"
proof -
  let ?sch = "tablet_schema (r_olap_table r)"
  let ?rc = "rp_return_columns read_params"
  have p: "push_cids ?sch ?rc (r_key_cids r) (r_value_cids r)
             = Some (filter (\<lambda>cid. fi_is_key (?sch ! cid)) ?rc,
                     filter (\<lambda>cid. \<not> fi_is_key (?sch ! cid)) ?rc)"
    using push_cids_Some[OF assms(5), of "r_key_cids r" "r_value_cids r"] assms(4)
    by (simp add: fresh_columns_def)
  have res: "init_return_columns read_params r =
      (Returned OLAP_SUCCESS,
       r\<lparr>r_return_columns := add_delete_columns (r_delete_handler r) ?rc,
         r_key_cids := sort_greater (filter (\<lambda>cid. fi_is_key (?sch ! cid)) ?rc),
         r_value_cids := filter (\<lambda>cid. \<not> fi_is_key (?sch ! cid)) ?rc\<rparr>)"
    using assms(1-3) p by (simp add: init_return_columns_def Let_def)
  have u: "set (sort_greater (filter (\<lambda>cid. fi_is_key (?sch ! cid)) ?rc))
             \<union> set (filter (\<lambda>cid. \<not> fi_is_key (?sch ! cid)) ?rc) = set ?rc"
    by (auto simp: sort_greater_def)
  show ?thesis
    using res u assms(6) by (auto simp: sort_greater_def)
qed

theorem init_return_columns_split_witness:
  "r_return_columns (snd (init_return_columns
       \<lparr>rp_reader_type = READER_QUERY, rp_aggregation = True, rp_return_columns = [0],
        rp_start_key = [], rp_end_key = []\<rparr>
       ((example_reader AGG_KEYS READER_QUERY True
          \<lparr>kp_range = [], kp_end_range = [], kp_start_keys = [], kp_end_keys = []\<rparr> [])
          \<lparr>r_return_columns := [], r_key_cids := [], r_value_cids := [],
           r_delete_handler := \<lparr>dh_is_filter_data = (\<lambda>v row. False),
                                 dh_delete_conditions = [[1]]\<rparr>\<rparr>))) = [0, 1]
   \<and> r_key_cids (snd (init_return_columns
       \<lparr>rp_reader_type = READER_QUERY, rp_aggregation = True, rp_return_columns = [0],
        rp_start_key = [], rp_end_key = []\<rparr>
       ((example_reader AGG_KEYS READER_QUERY True
          \<lparr>kp_range = [], kp_end_range = [], kp_start_keys = [], kp_end_keys = []\<rparr> [])
          \<lparr>r_return_columns := [], r_key_cids := [], r_value_cids := [],
           r_delete_handler := \<lparr>dh_is_filter_data = (\<lambda>v row. False),
                                 dh_delete_conditions = [[1]]\<rparr>\<rparr>))) = [0]
   \<and> r_value_cids (snd (init_return_columns
       \<lparr>rp_reader_type = READER_QUERY, rp_aggregation = True, rp_return_columns = [0],
        rp_start_key = [], rp_end_key = []\<rparr>
       ((example_reader AGG_KEYS READER_QUERY True
          \<lparr>kp_range = [], kp_end_range = [], kp_start_keys = [], kp_end_keys = []\<rparr> [])
          \<lparr>r_return_columns := [], r_key_cids := [], r_value_cids := [],
           r_delete_handler := \<lparr>dh_is_filter_data = (\<lambda>v row. False),
                                 dh_delete_conditions = [[1]]\<rparr>\<rparr>))) = []"
  using init_return_columns_split[of
       "\<lparr>rp_reader_type = READER_QUERY, rp_aggregation = True, rp_return_columns = [0],
        rp_start_key = [], rp_end_key = []\<rparr>"
       "(example_reader AGG_KEYS READER_QUERY True
          \<lparr>kp_range = [], kp_end_range = [], kp_start_keys = [], kp_end_keys = []\<rparr> [])
          \<lparr>r_return_columns := [], r_key_cids := [], r_value_cids := [],
           r_delete_handler := \<lparr>dh_is_filter_data = (\<lambda>v row. False),
                                 dh_delete_conditions = [[1]]\<rparr>\<rparr>", OF _ _ _ _ _ refl]
  by (simp add: fresh_columns_def example_reader_def example_table_def example_view_def
        conditions_num_def add_delete_columns_def sort_greater_def)

section \<open>Reader::_init_load_bf_columns\<close>

text \<open>
  The first loop: every column with an \<open>OP_EQ\<close> condition, or an \<open>OP_IN\<close> condition
  of fewer than \<open>MAX_OP_IN_FIELD_NUM\<close> operands, is inserted. \<open>MAX_OP_IN_FIELD_NUM\<close> is
  a constant defined outside \<open>reader.cpp\<close> and is a parameter here.
\<close>

definition insert_cond_columns :: "nat \<Rightarrow> (nat \<times> Cond list) list \<Rightarrow> nat set \<Rightarrow> nat set" where
  "insert_cond_columns max_op_in_field_num conds s =
     fold (\<lambda>(cond_column, cs) s.
             fold (\<lambda>cond s. if cond_op cond = OP_EQ
                                \<or> (cond_op cond = OP_IN
                                    \<and> operand_set_size cond < max_op_in_field_num)
                             then insert cond_column s else s) cs s)
       conds s"

text \<open>The second loop: columns without a bloom filter are erased.\<close>

definition erase_non_bf_columns :: "FieldInfo list \<Rightarrow> nat set \<Rightarrow> nat set" where
  "erase_non_bf_columns sch s =
     fold (\<lambda>i s. if \<not> fi_is_bf_column (sch ! i) then s - {i} else s) [0..<length sch] s"

text \<open>The two loops that compute \<open>min_scan_key_len\<close>, from the schema size down.\<close>

definition min_scan_key_len :: "FieldInfo list \<Rightarrow> ReaderParams \<Rightarrow> int" where
  "min_scan_key_len sch read_params =
     fold (\<lambda>key m. if int (length key) < m then int (length key) else m)
       (rp_start_key read_params @ rp_end_key read_params) (int (length sch))"

text \<open>
  The inner loop \<open>for (; j < min_scan_key_len; ++j)\<close>: the first position where the
  start key and the end key differ.
\<close>

function equal_prefix :: "OlapTuple \<Rightarrow> OlapTuple \<Rightarrow> int \<Rightarrow> int \<Rightarrow> int" where
  "equal_prefix start_key end_key min_len j =
     (if j < min_len then
        (if start_key ! nat j \<noteq> end_key ! nat j then j
         else equal_prefix start_key end_key min_len (j + 1))
      else j)"
  by pat_completeness auto
termination
  by (relation "measure (\<lambda>(start_key, end_key, min_len, j). nat (min_len - j))") auto

declare equal_prefix.simps [simp del]

text \<open>
  The outer loop over the start keys. \<open>read_params.end_key[i]\<close> is an unchecked read
  (made once the inner loop runs at all): \<open>None\<close> when there is no end key \<open>i\<close>.
\<close>

fun max_equal_loop :: "ReaderParams \<Rightarrow> int \<Rightarrow> nat list \<Rightarrow> int \<Rightarrow> int option" where
  "max_equal_loop read_params min_len [] max_equal_index = Some max_equal_index"
| "max_equal_loop read_params min_len (i # is) max_equal_index =
     (if 0 < min_len \<and> \<not> i < length (rp_end_key read_params) then None
      else
        (let j = equal_prefix (rp_start_key read_params ! i) (rp_end_key read_params ! i)
                   min_len 0
         in max_equal_loop read_params min_len is
              (if max_equal_index < j - 1 then j - 1 else max_equal_index)))"

definition max_equal_index :: "FieldInfo list \<Rightarrow> ReaderParams \<Rightarrow> int option" where
  "max_equal_index sch read_params =
     max_equal_loop read_params (min_scan_key_len sch read_params)
       [0..<length (rp_start_key read_params)] (- 1)"

text \<open>
  \<open>_load_bf_columns\<close> is a \<open>std::set<uint32_t>\<close>: erasing the \<open>int\<close>
  \<open>max_equal_index\<close> converts it to \<open>uint32_t\<close>.
\<close>

definition to_uint32 :: "int \<Rightarrow> nat" where
  "to_uint32 i = nat (i mod 2 ^ 32)"

definition erase_below :: "int \<Rightarrow> nat set \<Rightarrow> nat set" where
  "erase_below m s = fold (\<lambda>i s. s - {i}) [0..<nat m] s"

text \<open>
  The test of lines 1141 to 1143, on the type that \<open>get_field_type_by_index\<close> answers
  for \<open>max_equal_index\<close>.
\<close>

definition erases_max_equal_index :: "OLAPTable \<Rightarrow> int \<Rightarrow> bool" where
  "erases_max_equal_index tbl m =
     (let type = get_field_type_by_index tbl m in
      (type \<noteq> OLAP_FIELD_TYPE_VARCHAR \<and> type \<noteq> OLAP_FIELD_TYPE_HLL)
      \<or> m + 1 > num_short_key_fields tbl)"

definition bf_candidates :: "nat \<Rightarrow> Reader \<Rightarrow> nat set" where
  "bf_candidates max_op_in_field_num r =
     erase_non_bf_columns (tablet_schema (r_olap_table r))
       (insert_cond_columns max_op_in_field_num (r_conditions r) (r_load_bf_columns r))"

definition init_load_bf_columns :: "nat \<Rightarrow> ReaderParams \<Rightarrow> Reader \<Rightarrow> outcome \<times> Reader" where
  "init_load_bf_columns max_op_in_field_num read_params r =
     (let s = bf_candidates max_op_in_field_num r in
      case max_equal_index (tablet_schema (r_olap_table r)) read_params of
        None \<Rightarrow> (Undefined (OutOfRange ''end_key''), r\<lparr>r_load_bf_columns := s\<rparr>)
      | Some m \<Rightarrow>
          (let s' = erase_below m s in
           (Returned OLAP_SUCCESS,
            r\<lparr>r_load_bf_columns :=
                (if erases_max_equal_index (r_olap_table r) m then s' - {to_uint32 m}
                 else s')\<rparr>)))"

lemma fold_erase: "fold (\<lambda>i s. s - {i}) xs s = s - set xs"
  by (induction xs arbitrary: s) auto

lemma erase_below_eq: "erase_below m s = s - {c. int c < m}"
  by (auto simp: erase_below_def fold_erase)

lemma max_equal_loop_Some:
  "\<forall>i \<in> set is. i < length (rp_end_key read_params) \<Longrightarrow>
     \<exists>m. max_equal_loop read_params min_len is m0 = Some m"
  by (induction "is" arbitrary: m0) (auto simp: Let_def)

lemma max_equal_index_Some:
  "length (rp_start_key read_params) \<le> length (rp_end_key read_params) \<Longrightarrow>
     \<exists>m. max_equal_index sch read_params = Some m"
  unfolding max_equal_index_def by (rule max_equal_loop_Some) auto

text \<open>
  C7: after \<open>_init_load_bf_columns\<close>, with \<open>m\<close> the value of \<open>max_equal_index\<close>, no
  column id below \<open>m\<close> is in the bloom-filter column set; \<open>m\<close> itself is erased
  exactly when the test holds, which is: its field type is neither \<open>VARCHAR\<close> nor
  \<open>HLL\<close>, or \<open>m + 1\<close> exceeds \<open>num_short_key_fields\<close>; otherwise the set is the
  candidates without the columns below \<open>m\<close>.
\<close>

theorem init_load_bf_columns_erases:
  assumes "max_equal_index (tablet_schema (r_olap_table r)) read_params = Some m"
    and "r' = snd (init_load_bf_columns max_in read_params r)"
  shows "fst (init_load_bf_columns max_in read_params r) = Returned OLAP_SUCCESS
       \<and> (\<forall>c. int c < m \<longrightarrow> c \<notin> r_load_bf_columns r')
       \<and> (erases_max_equal_index (r_olap_table r) m \<longrightarrow> to_uint32 m \<notin> r_load_bf_columns r')
       \<and> (\<not> erases_max_equal_index (r_olap_table r) m \<longrightarrow>
             r_load_bf_columns r' = bf_candidates max_in r - {c. int c < m})
       \<and> erases_max_equal_index (r_olap_table r) m
           = ((get_field_type_by_index (r_olap_table r) m \<noteq> OLAP_FIELD_TYPE_VARCHAR
               \<and> get_field_type_by_index (r_olap_table r) m \<noteq> OLAP_FIELD_TYPE_HLL)
              \<or> m + 1 > num_short_key_fields (r_olap_table r))"
  using assms
  by (auto simp: init_load_bf_columns_def Let_def erase_below_eq erases_max_equal_index_def)

text \<open>
  An example: an \<open>INT\<close> key and a \<open>VARCHAR\<close> key, both with a bloom filter and an
  equality condition, and a value column.
\<close>

definition bf_table :: OLAPTable where
  "bf_table =
     \<lparr>tablet_schema =
        [\<lparr>fi_type = OLAP_FIELD_TYPE_INT, fi_is_key = True, fi_is_bf_column = True,
          fi_aggregation = OLAP_FIELD_AGGREGATION_NONE\<rparr>,
         \<lparr>fi_type = OLAP_FIELD_TYPE_VARCHAR, fi_is_key = True, fi_is_bf_column = True,
          fi_aggregation = OLAP_FIELD_AGGREGATION_NONE\<rparr>,
         \<lparr>fi_type = OLAP_FIELD_TYPE_INT, fi_is_key = False, fi_is_bf_column = False,
          fi_aggregation = OLAP_FIELD_AGGREGATION_SUM\<rparr>],
      keys_type = AGG_KEYS, num_short_key_fields = 2,
      get_field_type_by_index =
        (\<lambda>i. if i = 0 then OLAP_FIELD_TYPE_INT else if i = 1 then OLAP_FIELD_TYPE_VARCHAR
              else if i = 2 then OLAP_FIELD_TYPE_INT else OLAP_FIELD_TYPE_VARCHAR)\<rparr>"

definition bf_reader :: Reader where
  "bf_reader =
     (example_reader AGG_KEYS READER_QUERY False
        \<lparr>kp_range = [], kp_end_range = [], kp_start_keys = [], kp_end_keys = []\<rparr> [])
       \<lparr>r_olap_table := bf_table,
        r_conditions := [(0, [\<lparr>cond_op = OP_EQ, cond_operand_set = [''7'']\<rparr>]),
                         (1, [\<lparr>cond_op = OP_EQ, cond_operand_set = [''x'']\<rparr>])]\<rparr>"

definition bf_params :: "OlapTuple list \<Rightarrow> OlapTuple list \<Rightarrow> ReaderParams" where
  "bf_params start_key end_key =
     \<lparr>rp_reader_type = READER_QUERY, rp_aggregation = False, rp_return_columns = [0, 1, 2],
      rp_start_key = start_key, rp_end_key = end_key\<rparr>"

lemma bf_max_equal_index:
  "max_equal_index (tablet_schema (r_olap_table bf_reader))
     (bf_params [[''7'', ''x'']] [[''7'', ''x'']]) = Some 1"
  by (simp add: max_equal_index_def min_scan_key_len_def bf_params_def bf_reader_def
        bf_table_def equal_prefix.simps Let_def)

lemma bf_candidates_example: "bf_candidates 100 bf_reader = {0, 1}"
  by (auto simp: bf_candidates_def insert_cond_columns_def erase_non_bf_columns_def
        bf_reader_def bf_table_def example_reader_def upt_rec)

theorem init_load_bf_columns_erases_witness:
  "r_load_bf_columns (snd (init_load_bf_columns 100
       (bf_params [[''7'', ''x'']] [[''7'', ''x'']]) bf_reader)) = {1}"
proof -
  have e: "\<not> erases_max_equal_index (r_olap_table bf_reader) 1"
    by (simp add: erases_max_equal_index_def bf_reader_def bf_table_def)
  from init_load_bf_columns_erases[OF bf_max_equal_index refl, of 100] e
  have "r_load_bf_columns (snd (init_load_bf_columns 100
       (bf_params [[''7'', ''x'']] [[''7'', ''x'']]) bf_reader)) = {0, 1} - {c. int c < 1}"
    by (simp add: bf_candidates_example)
  also have "\<dots> = {1}" by auto
  finally show ?thesis .
qed


text \<open>
  C10, as stated: with an empty \<open>start_key\<close> list, \<open>max_equal_index\<close> stays \<open>-1\<close>,
  \<open>get_field_type_by_index\<close> is called with \<open>-1\<close> and the set erase is applied at
  \<open>-1\<close>. The last part fails when the type answered for \<open>-1\<close> is \<open>VARCHAR\<close>: the
  test of line 1142 is false and nothing is erased.
\<close>

theorem init_load_bf_columns_full_scan_counterexample:
  "rp_start_key (bf_params [] []) = []
   \<and> max_equal_index (tablet_schema (r_olap_table bf_reader)) (bf_params [] []) = Some (- 1)
   \<and> get_field_type_by_index (r_olap_table bf_reader) (- 1) = OLAP_FIELD_TYPE_VARCHAR
   \<and> \<not> erases_max_equal_index (r_olap_table bf_reader) (- 1)
   \<and> init_load_bf_columns 100 (bf_params [] []) bf_reader
       = (Returned OLAP_SUCCESS, bf_reader\<lparr>r_load_bf_columns := bf_candidates 100 bf_reader\<rparr>)"
  by (simp add: max_equal_index_def bf_params_def init_load_bf_columns_def
        erases_max_equal_index_def bf_reader_def bf_table_def erase_below_def)

text \<open>
  C10, amended: with an empty \<open>start_key\<close> list, \<open>max_equal_index\<close> stays \<open>-1\<close> and
  \<open>get_field_type_by_index\<close> is called with \<open>-1\<close>, which is no schema index; the erase
  at \<open>-1\<close> (the \<open>uint32_t\<close> 4294967295) is applied exactly when the type answered for
  \<open>-1\<close> is neither \<open>VARCHAR\<close> nor \<open>HLL\<close>, or \<open>num_short_key_fields\<close> is negative.
\<close>

theorem init_load_bf_columns_full_scan:
  assumes "rp_start_key read_params = []"
  shows "max_equal_index (tablet_schema (r_olap_table r)) read_params = Some (- 1)
       \<and> init_load_bf_columns max_in read_params r
           = (Returned OLAP_SUCCESS,
              r\<lparr>r_load_bf_columns :=
                  (if erases_max_equal_index (r_olap_table r) (- 1)
                   then bf_candidates max_in r - {to_uint32 (- 1)}
                   else bf_candidates max_in r)\<rparr>)
       \<and> erases_max_equal_index (r_olap_table r) (- 1)
           = ((get_field_type_by_index (r_olap_table r) (- 1) \<noteq> OLAP_FIELD_TYPE_VARCHAR
               \<and> get_field_type_by_index (r_olap_table r) (- 1) \<noteq> OLAP_FIELD_TYPE_HLL)
              \<or> 0 > num_short_key_fields (r_olap_table r))
       \<and> to_uint32 (- 1) = 4294967295"
  using assms
  by (simp add: max_equal_index_def init_load_bf_columns_def erases_max_equal_index_def
        erase_below_def to_uint32_def Let_def)

theorem init_load_bf_columns_full_scan_witness:
  "init_load_bf_columns 100 (bf_params [] [])
       (bf_reader\<lparr>r_olap_table := example_table AGG_KEYS\<rparr>)
     = (Returned OLAP_SUCCESS,
        bf_reader\<lparr>r_olap_table := example_table AGG_KEYS,
                  r_load_bf_columns :=
                    bf_candidates 100 (bf_reader\<lparr>r_olap_table := example_table AGG_KEYS\<rparr>)
                      - {4294967295}\<rparr>)"
  using init_load_bf_columns_full_scan[of "bf_params [] []"
          "bf_reader\<lparr>r_olap_table := example_table AGG_KEYS\<rparr>" 100]
  by (simp add: bf_params_def example_table_def)

section \<open>Reader::close\<close>

text \<open>
  What \<open>close\<close> releases: \<open>rr_heap\<close> is the set of objects that were allocated and
  not yet deleted; \<open>_collect_iter\<close> and the elements of \<open>_col_predicates\<close> are
  pointers into it. \<open>delete\<close> of a null pointer does nothing, \<open>delete\<close> of an object
  that is no longer allocated is undefined behaviour.

  Modelled from the spec: \<open>Conditions::finalize\<close>, \<open>DeleteHandler::finalize\<close> and
  \<open>OLAPTable::release_data_sources\<close> (none is in the sources at hand) release what they
  hold once: finalising twice is harmless, and \<open>release_data_sources\<close> empties the
  vector it is given.
\<close>

type_synonym addr = nat

record ReaderResources =
  rr_heap :: "addr set"
  rr_conditions_finalized :: bool
  rr_delete_handler_finalized :: bool
  rr_own_data_sources :: "addr list"
  rr_col_predicates :: "addr list"
  rr_collect_iter :: "addr option"

definition delete_ptr :: "addr option \<Rightarrow> addr set \<Rightarrow> ub + addr set" where
  "delete_ptr p h =
     (case p of
        None \<Rightarrow> Inr h
      | Some a \<Rightarrow> if a \<in> h then Inr (h - {a}) else Inl DoubleFree)"

fun delete_each :: "addr list \<Rightarrow> addr set \<Rightarrow> ub + addr set" where
  "delete_each [] h = Inr h"
| "delete_each (pred # preds) h =
     (case delete_ptr (Some pred) h of Inl u \<Rightarrow> Inl u | Inr h' \<Rightarrow> delete_each preds h')"

definition release_data_sources :: "ReaderResources \<Rightarrow> ReaderResources" where
  "release_data_sources s =
     s\<lparr>rr_heap := rr_heap s - set (rr_own_data_sources s), rr_own_data_sources := []\<rparr>"

text \<open>
  \<open>Reader::close\<close>: neither \<open>_col_predicates\<close> is cleared nor \<open>_collect_iter\<close> set to
  null after the \<open>delete\<close>. \<open>Reader::~Reader\<close> calls \<open>close\<close>.
\<close>

definition Reader_close :: "ReaderResources \<Rightarrow> ub + ReaderResources" where
  "Reader_close s =
     (let s1 = release_data_sources
                 (s\<lparr>rr_conditions_finalized := True, rr_delete_handler_finalized := True\<rparr>)
      in case delete_each (rr_col_predicates s1) (rr_heap s1) of
           Inl u \<Rightarrow> Inl u
         | Inr h \<Rightarrow>
             (case delete_ptr (rr_collect_iter s1) h of
                Inl u \<Rightarrow> Inl u
              | Inr h' \<Rightarrow> Inr (s1\<lparr>rr_heap := h'\<rparr>)))"

definition Reader_destructor :: "ReaderResources \<Rightarrow> ub + ReaderResources" where
  "Reader_destructor s = Reader_close s"

definition opened_reader :: ReaderResources where
  "opened_reader =
     \<lparr>rr_heap = {1, 2, 3}, rr_conditions_finalized = False,
      rr_delete_handler_finalized = False, rr_own_data_sources = [1],
      rr_col_predicates = [2], rr_collect_iter = Some 3\<rparr>"

text \<open>
  C5 (\<open>close\<close> is idempotent, a second call releases nothing twice): on a reader that
  holds one segment, one predicate and its iterator, the first \<open>close\<close> frees all
  three and keeps both pointers; the destructor's \<open>close\<close> then deletes the predicate a
  second time.
\<close>

theorem close_twice_double_free:
  "Reader_close opened_reader
     = Inr \<lparr>rr_heap = {}, rr_conditions_finalized = True, rr_delete_handler_finalized = True,
            rr_own_data_sources = [], rr_col_predicates = [2], rr_collect_iter = Some 3\<rparr>
   \<and> Reader_destructor \<lparr>rr_heap = {}, rr_conditions_finalized = True,
                         rr_delete_handler_finalized = True, rr_own_data_sources = [],
                         rr_col_predicates = [2], rr_collect_iter = Some 3\<rparr>
       = Inl DoubleFree"
  by (simp add: Reader_destructor_def Reader_close_def release_data_sources_def delete_ptr_def
        opened_reader_def)

section \<open>Order of the merged stream\<close>

text \<open>
  The comparator of the heap orders children by the pair of the full key of the current
  row and the version: \<open>ChildCtxComparator a b\<close> holds exactly when \<open>a\<close> is strictly
  above \<open>b\<close> in that order, so the top of the priority queue is a least child: least
  key first and, among equal keys, least version first.
\<close>

definition kv_le :: "int list \<times> int \<Rightarrow> int list \<times> int \<Rightarrow> bool" where
  "kv_le a b = (fst a < fst b \<or> (fst a = fst b \<and> snd a \<le> snd b))"

lemma kv_le_refl: "kv_le a a"
  by (simp add: kv_le_def)

lemma kv_le_trans: "kv_le a b \<Longrightarrow> kv_le b c \<Longrightarrow> kv_le a c"
  by (auto simp: kv_le_def)

lemma kv_le_total: "kv_le a b \<or> kv_le b a"
  by (auto simp: kv_le_def)

definition child_kv :: "FieldInfo list \<Rightarrow> ChildCtx \<Rightarrow> int list \<times> int" where
  "child_kv sch c = (full_key sch (the (cc_current_row c)), version c)"

lemma ChildCtxComparator_kv:
  "ChildCtxComparator sch a b = (\<not> kv_le (child_kv sch a) (child_kv sch b))"
  by (auto simp: ChildCtxComparator_def full_key_cmp_def kv_le_def child_kv_def Let_def)

lemma heap_select_min:
  "heap_select sch cs x xs \<in> set (x # xs)
   \<and> (\<forall>y \<in> set (x # xs).
         kv_le (child_kv sch (cs ! heap_select sch cs x xs)) (child_kv sch (cs ! y)))"
proof (induction xs arbitrary: x)
  case Nil
  then show ?case by (simp add: kv_le_refl)
next
  case (Cons y ys)
  let ?b = "if ChildCtxComparator sch (cs ! x) (cs ! y) then y else x"
  let ?t = "heap_select sch cs ?b ys"
  from Cons.IH[of ?b] have t: "?t \<in> set (?b # ys)"
    and m: "\<forall>z \<in> set (?b # ys). kv_le (child_kv sch (cs ! ?t)) (child_kv sch (cs ! z))"
    by blast+
  have bx: "kv_le (child_kv sch (cs ! ?b)) (child_kv sch (cs ! x))"
    and "by": "kv_le (child_kv sch (cs ! ?b)) (child_kv sch (cs ! y))"
    using kv_le_total[of "child_kv sch (cs ! x)" "child_kv sch (cs ! y)"]
    by (auto simp: ChildCtxComparator_kv kv_le_refl)
  from m have tb: "kv_le (child_kv sch (cs ! ?t)) (child_kv sch (cs ! ?b))" by simp
  have "kv_le (child_kv sch (cs ! ?t)) (child_kv sch (cs ! x))"
    "kv_le (child_kv sch (cs ! ?t)) (child_kv sch (cs ! y))"
    using kv_le_trans[OF tb bx] kv_le_trans[OF tb "by"] by blast+
  with t m show ?case by (auto split: if_splits)
qed

text \<open>
  A child of the heap is in order when it is live and the rows it still holds are in
  non-descending full-key order.
\<close>

definition key_sorted :: "FieldInfo list \<Rightarrow> RowCursor list \<Rightarrow> bool" where
  "key_sorted sch rows = sorted (map (full_key sch) rows)"

definition child_ok :: "ReaderView \<Rightarrow> ChildCtx \<Rightarrow> bool" where
  "child_ok rv c = (\<exists>b. live rv c b \<and> key_sorted (rv_schema rv) (pending rv c b))"

lemma live_pending:
  assumes "live rv c b"
  shows "pending rv c b = the (cc_current_row c) # pending rv c (pos_inc b)"
proof -
  from assms have hr: "rb_pos b < length (rb_rows b)"
    and cur: "cc_current_row c = Some (rb_rows b ! rb_pos b)"
    and nf: "\<not> row_filtered rv (version c) b (rb_rows b ! rb_pos b)"
    by (auto simp: live_def has_remaining_def)
  from hr have dr: "drop (rb_pos b) (rb_rows b)
        = rb_rows b ! rb_pos b # drop (Suc (rb_pos b)) (rb_rows b)"
    by (simp add: Cons_nth_drop_Suc)
  have rf: "row_filtered rv (version c) (pos_inc b) = row_filtered rv (version c) b"
    by (rule ext) (simp add: row_filtered_def pos_inc_def)
  show ?thesis
    using dr nf cur by (simp add: pending_def block_rows_def rf) (simp add: pos_inc_def)
qed

lemma ChildCtx_next_ok:
  assumes ok: "child_ok rv c" and nx: "ChildCtx_next rv c st = (out, c', st')"
  shows "\<exists>res. out = Returned res \<and> version c' = version c \<and> cc_is_delete c' = cc_is_delete c
           \<and> (res = OLAP_SUCCESS \<longrightarrow>
                 child_ok rv c'
                 \<and> full_key (rv_schema rv) (the (cc_current_row c))
                     \<le> full_key (rv_schema rv) (the (cc_current_row c')))
           \<and> (res \<noteq> OLAP_SUCCESS \<longrightarrow> cc_current_row c' = None)"
proof -
  from ok obtain b where lv: "live rv c b"
    and so: "key_sorted (rv_schema rv) (pending rv c b)"
    by (auto simp: child_ok_def)
  let ?c = "c\<lparr>cc_row_block := Some (pos_inc b)\<rparr>"
  obtain res c1 st1 where rl: "refresh_loop rv ?c (pos_inc b) st = (res, c1, st1)"
    by (metis prod_cases3)
  from lv have rb: "cc_row_block c = Some b" by (simp add: live_def)
  with nx rl have o: "out = Returned res" "c' = c1"
    by (auto simp: ChildCtx_next_def ChildCtx_refresh_current_row_def)
  have pc: "pending rv ?c (pos_inc b) = pending rv c (pos_inc b)"
    by (simp add: pending_def version_def)
  from refresh_loop_rows[OF rl] o
  have v: "version c' = version c" "cc_is_delete c' = cc_is_delete c"
    and s: "res = OLAP_SUCCESS \<longrightarrow> (\<exists>b'. live rv c' b' \<and> pending rv c' b' = pending rv c (pos_inc b))"
    and e: "res \<noteq> OLAP_SUCCESS \<longrightarrow> cc_current_row c' = None"
    by (auto simp: version_def pc)
  have "child_ok rv c' \<and> full_key (rv_schema rv) (the (cc_current_row c))
                     \<le> full_key (rv_schema rv) (the (cc_current_row c'))"
    if "res = OLAP_SUCCESS"
  proof -
    from s that obtain b' where lv': "live rv c' b'"
      and p': "pending rv c' b' = pending rv c (pos_inc b)" by blast
    from so live_pending[OF lv] p'
    have so': "key_sorted (rv_schema rv)
                 (the (cc_current_row c) # pending rv c' b')"
      by simp
    from live_pending[OF lv'] so'
    show ?thesis using lv' by (auto simp: child_ok_def key_sorted_def)
  qed
  with o v e show ?thesis by blast
qed


text \<open>
  The invariant of the iterator in merge mode: the heap holds distinct children, each in
  order, and \<open>_cur_child\<close> is the top of the heap.
\<close>

definition merge_inv :: "ReaderView \<Rightarrow> CollectIterator \<Rightarrow> bool" where
  "merge_inv rv it =
     (it_merge it \<and> distinct (it_heap it)
      \<and> (\<forall>i \<in> set (it_heap it). i < length (it_children it) \<and> child_ok rv (it_children it ! i))
      \<and> it_cur_child it = heap_top (rv_schema rv) (it_children it) (it_heap it))"

lemma child_ok_current: "child_ok rv c \<Longrightarrow> cc_current_row c \<noteq> None"
  by (auto simp: child_ok_def live_def)

lemma heap_ok_children:
  "\<forall>i \<in> set h. i < length cs \<and> child_ok rv (cs ! i) \<Longrightarrow> heap_ok cs h"
  by (auto simp: heap_ok_def list_all_iff dest: child_ok_current)

lemma heap_top_Some:
  "h \<noteq> [] \<Longrightarrow> heap_top sch cs h = Some (heap_select sch cs (hd h) (tl h))"
  by (cases h) (simp_all add: heap_top_def)

lemma heap_top_None: "(heap_top sch cs h = None) = (h = [])"
  by (cases h) (simp_all add: heap_top_def)

lemma heap_select_hd_tl:
  assumes "h \<noteq> []"
  shows "heap_select sch cs (hd h) (tl h) \<in> set h
         \<and> (\<forall>y \<in> set h. kv_le (child_kv sch (cs ! heap_select sch cs (hd h) (tl h)))
                               (child_kv sch (cs ! y)))"
  using heap_select_min[of sch cs "hd h" "tl h"] assms by simp

lemma merge_next_inv:
  assumes inv: "merge_inv rv it" and cur: "it_cur_child it = Some t"
    and nx: "CollectIterator_merge_next rv it st = (out, k, f, it', st')"
  shows "\<exists>res. out = Returned res
           \<and> (res = OLAP_SUCCESS \<longrightarrow>
                 merge_inv rv it'
                 \<and> (\<exists>t'. it_cur_child it' = Some t' \<and> k = cc_current_row (it_children it' ! t')
                         \<and> k \<noteq> None \<and> f = cc_is_delete (it_children it' ! t')
                         \<and> kv_le (child_kv (rv_schema rv) (it_children it ! t))
                                  (child_kv (rv_schema rv) (it_children it' ! t'))))
           \<and> (res \<noteq> OLAP_SUCCESS \<longrightarrow> k = None)"
proof -
  let ?sch = "rv_schema rv" and ?cs = "it_children it" and ?h = "it_heap it"
  from inv have mg: "it_merge it" and dh: "distinct ?h"
    and ch: "\<forall>i \<in> set ?h. i < length ?cs \<and> child_ok rv (?cs ! i)"
    and top: "it_cur_child it = heap_top ?sch ?cs ?h"
    by (auto simp: merge_inv_def)
  from top cur have hne: "?h \<noteq> []" by (metis heap_top_None option.distinct(1))
  from top cur heap_top_Some[OF hne] have t: "t = heap_select ?sch ?cs (hd ?h) (tl ?h)" by simp
  from heap_select_hd_tl[OF hne, of ?sch ?cs] t
  have tin: "t \<in> set ?h"
    and tmin: "\<forall>y \<in> set ?h. kv_le (child_kv ?sch (?cs ! t)) (child_kv ?sch (?cs ! y))"
    by simp_all
  from ch tin have tl: "t < length ?cs" and tok: "child_ok rv (?cs ! t)" by auto
  have hok: "heap_ok ?cs ?h" by (rule heap_ok_children[OF ch])
  define h1 where "h1 = remove1 t ?h"
  have pop: "heap_pop ?sch ?cs ?h = h1"
    using heap_top_Some[OF hne] t by (simp add: heap_pop_def h1_def)
  have h1set: "set h1 = set ?h - {t}" and dh1: "distinct h1" and tnh1: "t \<notin> set h1"
    using dh by (auto simp: h1_def)
  obtain o1 c' st1 where cn: "ChildCtx_next rv (?cs ! t) st = (o1, c', st1)"
    by (metis prod_cases3)
  from ChildCtx_next_ok[OF tok cn] obtain r1 where o1: "o1 = Returned r1"
    and ver: "version c' = version (?cs ! t)"
    and sok: "r1 = OLAP_SUCCESS \<longrightarrow> child_ok rv c'
                \<and> full_key ?sch (the (cc_current_row (?cs ! t)))
                     \<le> full_key ?sch (the (cc_current_row c'))"
    and nok: "r1 \<noteq> OLAP_SUCCESS \<longrightarrow> cc_current_row c' = None"
    by blast
  define cs' where "cs' = ?cs[t := c']"
  have others_eq: "\<And>i. i \<in> set h1 \<Longrightarrow> cs' ! i = ?cs ! i"
    using h1set by (auto simp: cs'_def)
  have others: "\<And>i. i \<in> set h1 \<Longrightarrow> i < length cs' \<and> child_ok rv (cs' ! i)"
    using ch h1set by (auto simp: cs'_def)
  have lower: "kv_le (child_kv ?sch (?cs ! t)) (child_kv ?sch (cs' ! i))" if "i \<in> set h1" for i
    using others_eq[OF that] tmin that h1set by auto
  show ?thesis
  proof (cases "r1 = OLAP_SUCCESS")
    case True
    let ?h2 = "heap_push t h1"
    have h2: "set ?h2 = set ?h" "distinct ?h2" "?h2 \<noteq> []"
      using h1set dh1 tnh1 tin by (auto simp: heap_push_def)
    have ct: "cs' ! t = c'" using tl by (simp add: cs'_def)
    have len: "length cs' = length ?cs" by (simp add: cs'_def)
    have ch2: "\<forall>i \<in> set ?h2. i < length cs' \<and> child_ok rv (cs' ! i)"
    proof
      fix i assume "i \<in> set ?h2"
      then consider "i = t" | "i \<in> set h1" by (auto simp: heap_push_def)
      then show "i < length cs' \<and> child_ok rv (cs' ! i)"
      proof cases
        case 1
        with tl ct sok True len show ?thesis by simp
      next
        case 2
        from others[OF this] show ?thesis by simp
      qed
    qed
    have hok2: "heap_ok cs' ?h2" by (rule heap_ok_children[OF ch2])
    define t' where "t' = heap_select ?sch cs' (hd ?h2) (tl ?h2)"
    from heap_select_hd_tl[OF h2(3), of ?sch cs'] have t'in: "t' \<in> set ?h2"
      by (simp add: t'_def)
    have res: "out = Returned OLAP_SUCCESS" "k = cc_current_row (cs' ! t')"
      "f = cc_is_delete (cs' ! t')"
      "it' = it\<lparr>it_children := cs', it_heap := ?h2, it_cur_child := Some t'\<rparr>"
      using nx hne hok pop cur tl cn o1 True hok2
      by (simp_all add: CollectIterator_merge_next_def Let_def cs'_def t'_def)
    have inv': "merge_inv rv it'"
      using mg h2 ch2 heap_top_Some[OF h2(3), of ?sch cs']
      by (simp add: merge_inv_def res t'_def)
    have kne: "k \<noteq> None" using ch2 t'in res(2) child_ok_current by blast
    have kv: "kv_le (child_kv ?sch (?cs ! t)) (child_kv ?sch (cs' ! t'))"
    proof (cases "t' = t")
      case True
      with ct sok \<open>r1 = OLAP_SUCCESS\<close> ver show ?thesis
        by (auto simp: kv_le_def child_kv_def)
    next
      case False
      with t'in have "t' \<in> set h1" by (simp add: heap_push_def)
      from lower[OF this] show ?thesis .
    qed
    show ?thesis using res inv' kne kv by simp
  next
    case False
    note nsucc = False
    show ?thesis
    proof (cases "r1 = OLAP_ERR_DATA_EOF \<and> h1 \<noteq> []")
      case True
      then have eof: "r1 = OLAP_ERR_DATA_EOF" and h1ne: "h1 \<noteq> []" by simp_all
      have ch1: "\<forall>i \<in> set h1. i < length cs' \<and> child_ok rv (cs' ! i)"
        using others by blast
      have hok1: "heap_ok cs' h1" by (rule heap_ok_children[OF ch1])
      define t' where "t' = heap_select ?sch cs' (hd h1) (tl h1)"
      from heap_select_hd_tl[OF h1ne, of ?sch cs'] have t'in: "t' \<in> set h1"
        by (simp add: t'_def)
      have res: "out = Returned OLAP_SUCCESS" "k = cc_current_row (cs' ! t')"
        "f = cc_is_delete (cs' ! t')"
        "it' = it\<lparr>it_children := cs', it_heap := h1, it_cur_child := Some t'\<rparr>"
        using nx hne hok pop cur tl cn o1 eof h1ne hok1
        by (simp_all add: CollectIterator_merge_next_def Let_def cs'_def t'_def)
      have inv': "merge_inv rv it'"
        using mg dh1 ch1 heap_top_Some[OF h1ne, of ?sch cs']
        by (simp add: merge_inv_def res t'_def)
      have kne: "k \<noteq> None" using ch1 t'in res(2) child_ok_current by blast
      show ?thesis using res inv' kne lower[OF t'in] by simp
    next
      case False
      have ck: "cc_current_row c' = None" using nok nsucc by simp
      have "\<exists>res. out = Returned res \<and> res \<noteq> OLAP_SUCCESS \<and> k = None"
        using nx hne hok pop cur tl cn o1 nsucc False ck
        by (auto simp: CollectIterator_merge_next_def Let_def split: if_splits)
      then show ?thesis by auto
    qed
  qed
qed

section \<open>Segments in key order\<close>

text \<open>
  A segment is sorted when, for every scan range, the rows that \<open>prepare_block_read\<close>
  and the following \<open>get_next_block\<close> calls hand out are in non-descending full-key
  order. Then every child the driver adds to the heap is in order.
\<close>

definition unread :: "RowBlock \<Rightarrow> RowCursor list" where
  "unread b = drop (rb_pos b) (rb_rows b)"

definition sorted_segment :: "FieldInfo list \<Rightarrow> ColumnData \<Rightarrow> bool" where
  "sorted_segment sch d =
     (\<forall>start_key find_last_row end_key end_key_find_last_row.
        case cd_prepare d start_key find_last_row end_key end_key_find_last_row of
          (res, block, following, fin) \<Rightarrow>
            key_sorted sch
              ((case block of None \<Rightarrow> [] | Some b \<Rightarrow> unread b) @ concat (map unread following)))"

lemma sorted_segmentD:
  assumes "sorted_segment sch d"
    and "cd_prepare d start_key find_last_row end_key end_key_find_last_row
           = (res, block, following, fin)"
  shows "key_sorted sch
           ((case block of None \<Rightarrow> [] | Some b \<Rightarrow> unread b) @ concat (map unread following))"
  using assms(1)[unfolded sorted_segment_def, rule_format,
          of start_key find_last_row end_key end_key_find_last_row] assms(2)
  by simp

lemma block_rows_subset: "set (block_rows rv ver b) \<subseteq> set (unread b)"
  by (auto simp: block_rows_def unread_def)

lemma blocks_rows_sorted:
  "key_sorted sch (concat (map unread bs)) \<Longrightarrow>
     key_sorted sch (concat (map (block_rows rv ver) bs))
     \<and> set (concat (map (block_rows rv ver) bs)) \<subseteq> set (concat (map unread bs))"
proof (induction bs)
  case Nil
  then show ?case by (simp add: key_sorted_def)
next
  case (Cons b bs)
  from Cons.prems have s1: "sorted (map (full_key sch) (unread b))"
    and s2: "key_sorted sch (concat (map unread bs))"
    and cr: "\<forall>x \<in> set (unread b). \<forall>y \<in> set (concat (map unread bs)).
               full_key sch x \<le> full_key sch y"
    by (auto simp: key_sorted_def sorted_append)
  from Cons.IH[OF s2] have i1: "key_sorted sch (concat (map (block_rows rv ver) bs))"
    and i2: "set (concat (map (block_rows rv ver) bs)) \<subseteq> set (concat (map unread bs))"
    by blast+
  have f: "sorted (map (full_key sch) (block_rows rv ver b))"
    using s1 unfolding block_rows_def unread_def by (rule sorted_filter)
  have "key_sorted sch (block_rows rv ver b @ concat (map (block_rows rv ver) bs))"
    using f i1 i2 cr block_rows_subset[of rv ver b]
    unfolding key_sorted_def map_append sorted_append
    by (auto simp del: set_concat)
  moreover have "set (block_rows rv ver b @ concat (map (block_rows rv ver) bs))
               \<subseteq> set (unread b @ concat (map unread bs))"
    using i2 block_rows_subset[of rv ver b] by (auto simp del: set_concat)
  ultimately show ?case by simp
qed

lemma pending_sorted:
  assumes "key_sorted sch (unread b @ concat (map unread (cd_blocks (cc_data c))))"
  shows "key_sorted sch (pending rv c b)"
proof -
  have "key_sorted sch (concat (map unread (b # cd_blocks (cc_data c))))"
    using assms by simp
  from blocks_rows_sorted[OF this, of rv "version c"]
  show ?thesis by (simp add: pending_def)
qed

lemma merge_inv_clear:
  "it_merge it \<Longrightarrow> merge_inv rv (CollectIterator_clear it)"
  by (simp add: merge_inv_def CollectIterator_clear_def heap_top_def)

lemma add_child_inv:
  assumes inv: "merge_inv rv it"
    and so: "key_sorted (rv_schema rv)
               ((case block of None \<Rightarrow> [] | Some b \<Rightarrow> unread b) @ concat (map unread (cd_blocks d)))"
    and ac: "CollectIterator_add_child rv it d block st = (out, it', st')"
  shows "merge_inv rv it'"
proof -
  let ?c0 = "ChildCtx_new d block"
  obtain o1 c' st1 where ci: "ChildCtx_init rv ?c0 st = (o1, c', st1)" by (metis prod_cases3)
  show ?thesis
  proof (cases "o1 = Returned OLAP_SUCCESS")
    case False
    with ac ci have "it' = it"
      by (cases o1) (auto simp: CollectIterator_add_child_def)
    with inv show ?thesis by simp
  next
    case True
    with ci obtain b where b: "block = Some b"
      and rl: "refresh_loop rv ?c0 b st = (OLAP_SUCCESS, c', st1)"
      by (auto simp: ChildCtx_init_def ChildCtx_refresh_current_row_def Let_def ChildCtx_new_def
               split: if_splits option.splits prod.splits)
    from refresh_loop_rows[OF rl] obtain b' where lv: "live rv c' b'"
      and pe: "pending rv c' b' = pending rv ?c0 b" by auto
    have "key_sorted (rv_schema rv) (pending rv ?c0 b)"
      by (rule pending_sorted) (use so b in \<open>simp add: ChildCtx_new_def\<close>)
    with lv pe have cok: "child_ok rv c'" by (auto simp: child_ok_def)
    then have cur: "cc_current_row c' \<noteq> None" by (rule child_ok_current)
    let ?cs = "it_children it @ [c']" and ?n = "length (it_children it)"
    let ?h = "heap_push ?n (it_heap it)"
    from inv have mg: "it_merge it" and dh: "distinct (it_heap it)"
      and ch: "\<forall>i \<in> set (it_heap it). i < ?n \<and> child_ok rv (it_children it ! i)"
      by (auto simp: merge_inv_def)
    have ch': "\<forall>i \<in> set ?h. i < length ?cs \<and> child_ok rv (?cs ! i)"
      using ch cok by (auto simp: heap_push_def nth_append)
    have hok: "heap_ok ?cs ?h" by (rule heap_ok_children[OF ch'])
    have dh': "distinct ?h" using dh ch by (auto simp: heap_push_def)
    have "it' = it\<lparr>it_children := ?cs, it_heap := ?h,
                    it_cur_child := heap_top (rv_schema rv) ?cs ?h\<rparr>"
      using ac ci True cur mg hok by (auto simp: CollectIterator_add_child_def Let_def)
    then show ?thesis using mg dh' ch' by (simp add: merge_inv_def)
  qed
qed

lemma attach_data_sources_inv:
  assumes "merge_inv rv it" and "\<forall>d \<in> set ds. sorted_segment (rv_schema rv) d"
    and "attach_data_sources rv ds sk flr ek eflr it st = (out, it', st')"
  shows "merge_inv rv it'"
  using assms
proof (induction ds arbitrary: it st)
  case Nil
  then show ?case by simp
next
  case (Cons d ds)
  obtain res block d' where p: "prepare_block_read d sk flr ek eflr = (res, block, d')"
    by (metis prod_cases3)
  obtain o2 it2 st2 where a: "CollectIterator_add_child rv it d' block st = (o2, it2, st2)"
    by (metis prod_cases3)
  from Cons.prems(2) have "sorted_segment (rv_schema rv) d" by simp
  with p have "key_sorted (rv_schema rv)
       ((case block of None \<Rightarrow> [] | Some b \<Rightarrow> unread b) @ concat (map unread (cd_blocks d')))"
    by (cases "cd_prepare d sk flr ek eflr")
       (auto simp: prepare_block_read_def dest: sorted_segmentD)
  from add_child_inv[OF Cons.prems(1) this a] have i2: "merge_inv rv it2" .
  from Cons.prems(2) have rest: "\<forall>d \<in> set ds. sorted_segment (rv_schema rv) d" by simp
  show ?case
  proof (cases "res = OLAP_SUCCESS")
    case True
    show ?thesis
    proof (cases o2)
      case (Undefined u)
      with Cons.prems(3) p a True i2 show ?thesis by simp
    next
      case (Returned r2)
      show ?thesis
      proof (cases "r2 \<noteq> OLAP_SUCCESS \<and> r2 \<noteq> OLAP_ERR_DATA_EOF")
        case True
        with Cons.prems(3) p a \<open>res = OLAP_SUCCESS\<close> Returned i2 show ?thesis by auto
      next
        case False
        with Cons.prems(3) p a \<open>res = OLAP_SUCCESS\<close> Returned
        have "attach_data_sources rv ds sk flr ek eflr it2 st2 = (out, it', st')" by auto
        from Cons.IH[OF i2 rest this] show ?thesis .
      qed
    qed
  next
    case False
    show ?thesis
    proof (cases "res = OLAP_ERR_DATA_EOF")
      case True
      with Cons.prems(3) p have "attach_data_sources rv ds sk flr ek eflr it st = (out, it', st')"
        by simp
      from Cons.IH[OF Cons.prems(1) rest this] show ?thesis .
    next
      case False
      with Cons.prems(3) p \<open>res \<noteq> OLAP_SUCCESS\<close> Cons.prems(1) show ?thesis by simp
    qed
  qed
qed


text \<open>
  The invariant of the reader in merge mode: the iterator's invariant, and \<open>_next_key\<close>
  and \<open>_next_delete_flag\<close> are the current row and the delete flag of the current child.
\<close>

definition reader_inv :: "Reader \<Rightarrow> bool" where
  "reader_inv r =
     (merge_inv (reader_view r) (r_collect_iter r)
      \<and> (case it_cur_child (r_collect_iter r) of
            None \<Rightarrow> r_next_key r = None
          | Some t \<Rightarrow>
              r_next_key r = cc_current_row (it_children (r_collect_iter r) ! t)
              \<and> r_next_delete_flag r = cc_is_delete (it_children (r_collect_iter r) ! t)))"

definition sorted_segments :: "Reader \<Rightarrow> bool" where
  "sorted_segments r =
     (\<forall>d \<in> set (r_data_sources r). sorted_segment (tablet_schema (r_olap_table r)) d)"

definition same_config :: "Reader \<Rightarrow> Reader \<Rightarrow> bool" where
  "same_config r r' =
     (r_olap_table r' = r_olap_table r \<and> r_delete_handler r' = r_delete_handler r
      \<and> r_data_sources r' = r_data_sources r \<and> r_key_cids r' = r_key_cids r
      \<and> r_value_cids r' = r_value_cids r \<and> r_aggregation r' = r_aggregation r
      \<and> r_scanner_row_num r' = r_scanner_row_num r \<and> r_keys_param r' = r_keys_param r)"

lemma same_config_refl: "same_config r r"
  by (simp add: same_config_def)

lemma same_config_trans: "same_config a b \<Longrightarrow> same_config b c \<Longrightarrow> same_config a c"
  by (simp add: same_config_def)

lemma same_config_view: "same_config r r' \<Longrightarrow> reader_view r' = reader_view r"
  by (simp add: same_config_def reader_view_def)

lemma attach_step_inv:
  assumes mg: "it_merge (r_collect_iter r)" and ss: "sorted_segments r"
  shows "attach_step first r = Done (Returned OLAP_SUCCESS, False, r') \<Longrightarrow>
           reader_inv r' \<and> same_config r r'"
    and "attach_step first r = Again r' \<Longrightarrow>
           it_merge (r_collect_iter r') \<and> sorted_segments r'"
proof -
  have mi: "merge_inv (reader_view r) it'"
    if "attach_data_sources (reader_view r) (r_data_sources r) sk flr ek eflr
          (CollectIterator_clear (r_collect_iter r)) (r_stats r) = (out, it', st')"
    for sk flr ek eflr out it' st'
    using attach_data_sources_inv[OF merge_inv_clear[OF mg] _ that] ss
    by (simp add: sorted_segments_def reader_view_def)
  show "attach_step first r = Done (Returned OLAP_SUCCESS, False, r') \<Longrightarrow>
           reader_inv r' \<and> same_config r r'"
    by (auto simp: attach_step_def Let_def reader_inv_def reader_view_def same_config_def
          CollectIterator_current_row_def
          split: if_splits scan_range.splits prod.splits outcome.splits option.splits
          dest!: mi[unfolded reader_view_def])
  show "attach_step first r = Again r' \<Longrightarrow>
           it_merge (r_collect_iter r') \<and> sorted_segments r'"
    using ss
    by (auto simp: attach_step_def Let_def sorted_segments_def merge_inv_def
          split: if_splits scan_range.splits prod.splits outcome.splits option.splits
          dest!: mi)
qed

lemma attach_inv:
  "it_merge (r_collect_iter r) \<Longrightarrow> sorted_segments r \<Longrightarrow>
   attach_data_to_merge_set first r = (Returned OLAP_SUCCESS, False, r') \<Longrightarrow>
     reader_inv r' \<and> r_next_key r' \<noteq> None \<and> sorted_segments r'"
proof (induction first r rule: attach_data_to_merge_set.induct)
  case (1 first r)
  show ?case
  proof (cases "attach_step first r")
    case (Done result)
    with "1.prems"(3) have d: "attach_step first r = Done (Returned OLAP_SUCCESS, False, r')"
      by (subst (asm) attach_data_to_merge_set.simps) simp
    from attach_step_inv(1)[OF "1.prems"(1,2) d] attach_step_Done[OF d] "1.prems"(2)
    show ?thesis by (auto simp: same_config_def sorted_segments_def)
  next
    case (Again r1)
    with "1.prems"(3) have "attach_data_to_merge_set False r1 = (Returned OLAP_SUCCESS, False, r')"
      by (subst (asm) attach_data_to_merge_set.simps) simp
    from "1.IH"[OF Again _ _ this] attach_step_inv(2)[OF "1.prems"(1,2) Again]
    show ?thesis by simp
  qed
qed

section \<open>Rows produced in merge mode\<close>

text \<open>
  What \<open>_init_return_columns\<close> guarantees of the two column lists: no value column is a
  key column of the schema, and no key column is listed as a value column.
\<close>

definition cids_ok :: "Reader \<Rightarrow> bool" where
  "cids_ok r =
     ((\<forall>c \<in> set (r_value_cids r).
          c < length (tablet_schema (r_olap_table r))
            \<longrightarrow> \<not> fi_is_key (tablet_schema (r_olap_table r) ! c))
      \<and> (\<forall>c \<in> set (r_key_cids r). c \<notin> set (r_value_cids r)))"

text \<open>The full key and the version of the row \<open>_next_key\<close> points to.\<close>

definition reader_kv :: "Reader \<Rightarrow> int list \<times> int" where
  "reader_kv r =
     child_kv (tablet_schema (r_olap_table r))
       (it_children (r_collect_iter r) ! the (it_cur_child (r_collect_iter r)))"

lemma set_next_simps:
  "r_collect_iter (set_next r k f it st) = it"
  "r_next_key (set_next r k f it st) = k"
  "r_next_delete_flag (set_next r k f it st) = f"
  "r_stats (set_next r k f it st) = st"
  "reader_view (set_next r k f it st) = reader_view r"
  "same_config r (set_next r k f it st)"
  "r_olap_table (set_next r k f it st) = r_olap_table r"
  by (simp_all add: set_next_def reader_view_def same_config_def)

lemma reader_inv_cur:
  "reader_inv r \<Longrightarrow> r_next_key r \<noteq> None \<Longrightarrow>
     \<exists>t. it_cur_child (r_collect_iter r) = Some t
        \<and> r_next_key r = cc_current_row (it_children (r_collect_iter r) ! t)
        \<and> r_next_delete_flag r = cc_is_delete (it_children (r_collect_iter r) ! t)"
  by (auto simp: reader_inv_def split: option.splits)

lemma reader_kv_key:
  "reader_inv r \<Longrightarrow> r_next_key r = Some k \<Longrightarrow>
     fst (reader_kv r) = full_key (tablet_schema (r_olap_table r)) k"
  by (auto simp: reader_inv_def reader_kv_def child_kv_def split: option.splits)

lemma reader_next_inv:
  assumes inv: "reader_inv r" and nk: "r_next_key r \<noteq> None"
    and nx: "CollectIterator_next (reader_view r) (r_collect_iter r) (r_stats r)
               = (out, k, f, it', st')"
  shows "\<exists>res. out = Returned res
           \<and> (res = OLAP_SUCCESS \<longrightarrow>
                 reader_inv (set_next r k f it' st') \<and> k \<noteq> None
                 \<and> kv_le (reader_kv r) (reader_kv (set_next r k f it' st')))
           \<and> (res \<noteq> OLAP_SUCCESS \<longrightarrow> k = None)"
proof -
  from reader_inv_cur[OF inv nk] obtain t where t: "it_cur_child (r_collect_iter r) = Some t"
    by blast
  from inv have mi: "merge_inv (reader_view r) (r_collect_iter r)"
    by (simp add: reader_inv_def)
  then have "it_merge (r_collect_iter r)" by (simp add: merge_inv_def)
  with nx have mn: "CollectIterator_merge_next (reader_view r) (r_collect_iter r) (r_stats r)
               = (out, k, f, it', st')"
    by (simp add: CollectIterator_next_def)
  from merge_next_inv[OF mi t mn] obtain res where o: "out = Returned res"
    and ok: "res = OLAP_SUCCESS \<longrightarrow>
               merge_inv (reader_view r) it'
               \<and> (\<exists>t'. it_cur_child it' = Some t' \<and> k = cc_current_row (it_children it' ! t')
                       \<and> k \<noteq> None \<and> f = cc_is_delete (it_children it' ! t')
                       \<and> kv_le (child_kv (rv_schema (reader_view r))
                                  (it_children (r_collect_iter r) ! t))
                                (child_kv (rv_schema (reader_view r)) (it_children it' ! t')))"
    and no: "res \<noteq> OLAP_SUCCESS \<longrightarrow> k = None"
    by blast
  have sch: "rv_schema (reader_view r) = tablet_schema (r_olap_table r)"
    by (simp add: reader_view_def)
  have "reader_inv (set_next r k f it' st') \<and> k \<noteq> None
          \<and> kv_le (reader_kv r) (reader_kv (set_next r k f it' st'))"
    if "res = OLAP_SUCCESS"
  proof -
    from ok that obtain t' where mi': "merge_inv (reader_view r) it'"
      and t': "it_cur_child it' = Some t'" "k = cc_current_row (it_children it' ! t')"
        "k \<noteq> None" "f = cc_is_delete (it_children it' ! t')"
      and kv: "kv_le (child_kv (tablet_schema (r_olap_table r))
                        (it_children (r_collect_iter r) ! t))
                     (child_kv (tablet_schema (r_olap_table r)) (it_children it' ! t'))"
      unfolding sch by blast
    have "reader_inv (set_next r k f it' st')"
      unfolding reader_inv_def by (simp add: set_next_simps mi' t')
    moreover have "kv_le (reader_kv r) (reader_kv (set_next r k f it' st'))"
      unfolding reader_kv_def by (simp add: set_next_simps t t'(1) kv)
    ultimately show ?thesis using t'(3) by simp
  qed
  with o no show ?thesis by blast
qed

lemma col_list_update: "col (d[c := v]) k = (if k = c \<and> c < length d then v else col d k)"
  by (auto simp: col_def)

lemma aggregate_col:
  "c \<notin> set cids \<Longrightarrow> col (RowCursor_aggregate sch cids dst src) c = col dst c"
  unfolding RowCursor_aggregate_def
  by (induction cids arbitrary: dst) (auto simp: col_list_update)

lemma aggregate_full_key:
  assumes "\<forall>c \<in> set cids. c < length sch \<longrightarrow> \<not> fi_is_key (sch ! c)"
  shows "full_key sch (RowCursor_aggregate sch cids dst src) = full_key sch dst"
  using assms unfolding RowCursor_aggregate_def
proof (induction cids arbitrary: dst)
  case Nil
  then show ?case by simp
next
  case (Cons c cids)
  let ?d = "if c < length sch
            then dst[c := agg_update (fi_aggregation (sch ! c)) (col dst c) (col src c)] else dst"
  have "full_key sch ?d = full_key sch dst"
    using Cons.prems by (auto simp: full_key_def key_columns_def col_list_update)
  with Cons.IH[of ?d] Cons.prems show ?case by simp
qed


lemma agg_merge_step_inv:
  assumes inv: "reader_inv r" and nk: "r_next_key r \<noteq> None" and co: "cids_ok r"
  shows "agg_merge_step r row mc = Done (out, r', row', mc') \<Longrightarrow>
           out \<noteq> Returned OLAP_SUCCESS
           \<or> (row' = row \<and> same_config r r'
               \<and> (r_next_key r' \<noteq> None \<longrightarrow>
                    reader_inv r' \<and> kv_le (reader_kv r) (reader_kv r')
                    \<and> (\<not> r_aggregation r \<longrightarrow>
                          \<not> RowCursor_equal (r_key_cids r) row (the (r_next_key r')))))"
    and "agg_merge_step r row mc = Again (r', row', mc') \<Longrightarrow>
           reader_inv r' \<and> r_next_key r' \<noteq> None \<and> same_config r r'
           \<and> kv_le (reader_kv r) (reader_kv r')
           \<and> full_key (tablet_schema (r_olap_table r)) row'
               = full_key (tablet_schema (r_olap_table r)) row
           \<and> (\<forall>c \<in> set (r_key_cids r). col row' c = col row c)"
proof -
  obtain o1 k f it1 st1 where nx:
    "CollectIterator_next (reader_view r) (r_collect_iter r) (r_stats r) = (o1, k, f, it1, st1)"
    by (metis prod_cases5)
  from reader_next_inv[OF inv nk nx] obtain res where res: "o1 = Returned res"
    and ok: "res = OLAP_SUCCESS \<longrightarrow>
                 reader_inv (set_next r k f it1 st1) \<and> k \<noteq> None
                 \<and> kv_le (reader_kv r) (reader_kv (set_next r k f it1 st1))"
    and no: "res \<noteq> OLAP_SUCCESS \<longrightarrow> k = None"
    by blast
  show "agg_merge_step r row mc = Done (out, r', row', mc') \<Longrightarrow>
           out \<noteq> Returned OLAP_SUCCESS
           \<or> (row' = row \<and> same_config r r'
               \<and> (r_next_key r' \<noteq> None \<longrightarrow>
                    reader_inv r' \<and> kv_le (reader_kv r) (reader_kv r')
                    \<and> (\<not> r_aggregation r \<longrightarrow>
                          \<not> RowCursor_equal (r_key_cids r) row (the (r_next_key r')))))"
    using nx res ok no
    by (auto simp: agg_merge_step_def Let_def set_next_simps split: if_splits option.splits)
  show "agg_merge_step r row mc = Again (r', row', mc') \<Longrightarrow>
           reader_inv r' \<and> r_next_key r' \<noteq> None \<and> same_config r r'
           \<and> kv_le (reader_kv r) (reader_kv r')
           \<and> full_key (tablet_schema (r_olap_table r)) row'
               = full_key (tablet_schema (r_olap_table r)) row
           \<and> (\<forall>c \<in> set (r_key_cids r). col row' c = col row c)"
    using nx res ok no co
    by (auto simp: agg_merge_step_def Let_def set_next_simps cids_ok_def
          aggregate_full_key aggregate_col split: if_splits option.splits)
qed

lemma cids_ok_config: "same_config r r' \<Longrightarrow> cids_ok r' = cids_ok r"
  by (simp add: same_config_def cids_ok_def)

lemma agg_merge_loop_inv:
  "reader_inv r \<Longrightarrow> r_next_key r \<noteq> None \<Longrightarrow> cids_ok r \<Longrightarrow>
   agg_merge_loop r row mc = (Returned OLAP_SUCCESS, r', row', mc') \<Longrightarrow>
     full_key (tablet_schema (r_olap_table r)) row' = full_key (tablet_schema (r_olap_table r)) row
     \<and> (\<forall>c \<in> set (r_key_cids r). col row' c = col row c)
     \<and> same_config r r'
     \<and> (r_next_key r' \<noteq> None \<longrightarrow>
          reader_inv r' \<and> kv_le (reader_kv r) (reader_kv r')
          \<and> (\<not> r_aggregation r \<longrightarrow>
                \<not> RowCursor_equal (r_key_cids r) row' (the (r_next_key r'))))"
proof (induction r row mc rule: agg_merge_loop.induct)
  case (1 r row mc)
  show ?case
  proof (cases "agg_merge_step r row mc")
    case (Done result)
    with "1.prems"(4)
    have d: "agg_merge_step r row mc = Done (Returned OLAP_SUCCESS, r', row', mc')"
      by (subst (asm) agg_merge_loop.simps) simp
    from agg_merge_step_inv(1)[OF "1.prems"(1-3) d] show ?thesis by auto
  next
    case (Again s)
    obtain r1 row1 mc1 where s: "s = (r1, row1, mc1)" by (metis prod_cases3)
    from "1.prems"(4) Again s
    have l: "agg_merge_loop r1 row1 mc1 = (Returned OLAP_SUCCESS, r', row', mc')"
      by (subst (asm) agg_merge_loop.simps) simp
    from agg_merge_step_inv(2)[OF "1.prems"(1-3) Again[unfolded s]]
    have a: "reader_inv r1" "r_next_key r1 \<noteq> None" "same_config r r1"
      "kv_le (reader_kv r) (reader_kv r1)"
      "full_key (tablet_schema (r_olap_table r)) row1
         = full_key (tablet_schema (r_olap_table r)) row"
      "\<forall>c \<in> set (r_key_cids r). col row1 c = col row c"
      by blast+
    from a(3) "1.prems"(3) have co1: "cids_ok r1" by (simp add: cids_ok_config)
    from "1.IH"[OF Again[unfolded s] refl refl a(1,2) co1 l] a
    show ?thesis
      by (auto simp: same_config_def intro: kv_le_trans)
  qed
qed


lemma reader_inv_merged_rows [simp]:
  "reader_inv (r\<lparr>r_merged_rows := m\<rparr>) = reader_inv r"
  by (simp add: reader_inv_def reader_view_def split: option.splits)

lemma agg_key_next_row_inv:
  assumes inv: "reader_inv r" and nk: "r_next_key r = Some k0" and co: "cids_ok r"
    and call: "agg_key_next_row r row0 = (Returned OLAP_SUCCESS, eof, row, r')"
  shows "\<not> eof
       \<and> full_key (tablet_schema (r_olap_table r)) row
           = full_key (tablet_schema (r_olap_table r)) k0
       \<and> (\<forall>c \<in> set (r_key_cids r). col row c = col k0 c)
       \<and> same_config r r'
       \<and> (r_next_key r' \<noteq> None \<longrightarrow>
            reader_inv r'
            \<and> full_key (tablet_schema (r_olap_table r)) k0
                \<le> full_key (tablet_schema (r_olap_table r)) (the (r_next_key r'))
            \<and> (\<not> r_aggregation r \<longrightarrow>
                  \<not> RowCursor_equal (r_key_cids r) row (the (r_next_key r'))))"
proof -
  obtain out r2 row2 mc where l: "agg_merge_loop r (agg_init k0) 0 = (out, r2, row2, mc)"
    by (metis prod_cases4)
  from call nk l have o: "out = Returned OLAP_SUCCESS" and e: "\<not> eof"
    and row: "row = finalize_one_merge (r_value_cids r2) row2"
    and r': "r' = r2\<lparr>r_merged_rows := r_merged_rows r2 + mc\<rparr>"
    by (auto simp: agg_key_next_row_def split: if_splits)
  from nk have nn: "r_next_key r \<noteq> None" by simp
  from agg_merge_loop_inv[OF inv nn co l[unfolded o]]
  have a: "full_key (tablet_schema (r_olap_table r)) row2
             = full_key (tablet_schema (r_olap_table r)) k0"
    "\<forall>c \<in> set (r_key_cids r). col row2 c = col k0 c"
    "same_config r r2"
    "r_next_key r2 \<noteq> None \<longrightarrow>
       reader_inv r2 \<and> kv_le (reader_kv r) (reader_kv r2)
       \<and> (\<not> r_aggregation r \<longrightarrow>
             \<not> RowCursor_equal (r_key_cids r) row2 (the (r_next_key r2)))"
    by (simp_all add: agg_init_def)
  have sc: "same_config r r'" using a(3) r' by (simp add: same_config_def)
  have "reader_inv r'
        \<and> full_key (tablet_schema (r_olap_table r)) k0
            \<le> full_key (tablet_schema (r_olap_table r)) (the (r_next_key r'))
        \<and> (\<not> r_aggregation r \<longrightarrow>
              \<not> RowCursor_equal (r_key_cids r) row (the (r_next_key r')))"
    if n: "r_next_key r' \<noteq> None"
  proof -
    from n r' obtain k1 where k1: "r_next_key r2 = Some k1" by auto
    with a(4) have i2: "reader_inv r2" and kv: "kv_le (reader_kv r) (reader_kv r2)"
      and ne: "\<not> r_aggregation r \<longrightarrow> \<not> RowCursor_equal (r_key_cids r) row2 k1"
      by simp_all
    from reader_kv_key[OF inv nk] reader_kv_key[OF i2 k1] kv a(3)
    have "full_key (tablet_schema (r_olap_table r)) k0
            \<le> full_key (tablet_schema (r_olap_table r)) k1"
      by (auto simp: kv_le_def same_config_def)
    with i2 ne k1 r' row show ?thesis by (simp add: finalize_one_merge_def)
  qed
  with e a(1,2) sc row show ?thesis by (simp add: finalize_one_merge_def)
qed

text \<open>
  The rows that successive calls of \<open>_agg_key_next_row\<close> emit from the scan range that
  is attached, up to \<open>n\<close> calls: the calls stop with the range (\<open>_next_key\<close> is null,
  the next call would attach the next range), at end of file or at an error.
\<close>

fun agg_range_rows :: "nat \<Rightarrow> Reader \<Rightarrow> RowCursor list" where
  "agg_range_rows 0 r = []"
| "agg_range_rows (Suc n) r =
     (if r_next_key r = None then []
      else (case agg_key_next_row r [] of
              (out, eof, row, r') \<Rightarrow>
                if out = Returned OLAP_SUCCESS \<and> \<not> eof then row # agg_range_rows n r' else []))"

lemma agg_range_rows_None: "r_next_key r = None \<Longrightarrow> agg_range_rows n r = []"
  by (cases n) simp_all

lemma RowCursor_equal_cong:
  "\<forall>c \<in> set cids. col b c = col b' c \<Longrightarrow> RowCursor_equal cids a b = RowCursor_equal cids a b'"
  by (auto simp: RowCursor_equal_def list_all_iff)

lemma agg_range_rows_sorted:
  "reader_inv r \<Longrightarrow> r_next_key r = Some k0 \<Longrightarrow> cids_ok r \<Longrightarrow>
     sorted (map (full_key (tablet_schema (r_olap_table r))) (agg_range_rows n r))
     \<and> (\<forall>x \<in> set (agg_range_rows n r).
           full_key (tablet_schema (r_olap_table r)) k0
             \<le> full_key (tablet_schema (r_olap_table r)) x)
     \<and> (agg_range_rows n r \<noteq> [] \<longrightarrow>
           (\<forall>c \<in> set (r_key_cids r). col (hd (agg_range_rows n r)) c = col k0 c))
     \<and> (\<not> r_aggregation r \<longrightarrow>
           successively (\<lambda>a b. \<not> RowCursor_equal (r_key_cids r) a b) (agg_range_rows n r))"
proof (induction n arbitrary: r k0)
  case 0
  then show ?case by simp
next
  case (Suc n)
  let ?sch = "tablet_schema (r_olap_table r)"
  obtain out eof row r' where call: "agg_key_next_row r [] = (out, eof, row, r')"
    by (metis prod_cases4)
  show ?case
  proof (cases "out = Returned OLAP_SUCCESS \<and> \<not> eof")
    case False
    with call Suc.prems(2) show ?thesis by auto
  next
    case True
    with call have call': "agg_key_next_row r [] = (Returned OLAP_SUCCESS, eof, row, r')"
      by simp
    from agg_key_next_row_inv[OF Suc.prems(1,2,3) call']
    have a: "full_key ?sch row = full_key ?sch k0"
      "\<forall>c \<in> set (r_key_cids r). col row c = col k0 c"
      "same_config r r'"
      "r_next_key r' \<noteq> None \<longrightarrow>
            reader_inv r' \<and> full_key ?sch k0 \<le> full_key ?sch (the (r_next_key r'))
            \<and> (\<not> r_aggregation r \<longrightarrow>
                  \<not> RowCursor_equal (r_key_cids r) row (the (r_next_key r')))"
      by blast+
    have rows: "agg_range_rows (Suc n) r = row # agg_range_rows n r'"
      using call True Suc.prems(2) by simp
    show ?thesis
    proof (cases "r_next_key r'")
      case None
      then show ?thesis using rows a(1,2) by (simp add: agg_range_rows_None)
    next
      case (Some k1)
      with a(4) have i': "reader_inv r'" and le: "full_key ?sch k0 \<le> full_key ?sch k1"
        and ne: "\<not> r_aggregation r \<longrightarrow> \<not> RowCursor_equal (r_key_cids r) row k1"
        by simp_all
      from a(3) Suc.prems(3) have co': "cids_ok r'" by (simp add: cids_ok_config)
      from a(3) have cfg: "r_olap_table r' = r_olap_table r" "r_key_cids r' = r_key_cids r"
        "r_aggregation r' = r_aggregation r"
        by (simp_all add: same_config_def)
      from Suc.IH[OF i' Some co'] cfg
      have ih: "sorted (map (full_key ?sch) (agg_range_rows n r'))"
        "\<forall>x \<in> set (agg_range_rows n r'). full_key ?sch k1 \<le> full_key ?sch x"
        "agg_range_rows n r' \<noteq> [] \<longrightarrow>
           (\<forall>c \<in> set (r_key_cids r). col (hd (agg_range_rows n r')) c = col k1 c)"
        "\<not> r_aggregation r \<longrightarrow>
           successively (\<lambda>a b. \<not> RowCursor_equal (r_key_cids r) a b) (agg_range_rows n r')"
        by simp_all
      have s: "sorted (map (full_key ?sch) (row # agg_range_rows n r'))"
        using ih(1,2) le a(1) by auto
      have lb: "\<forall>x \<in> set (row # agg_range_rows n r'). full_key ?sch k0 \<le> full_key ?sch x"
        using ih(2) le a(1) by auto
      have su: "successively (\<lambda>a b. \<not> RowCursor_equal (r_key_cids r) a b)
                  (row # agg_range_rows n r')"
        if na: "\<not> r_aggregation r"
      proof (cases "agg_range_rows n r'")
        case Nil
        then show ?thesis by simp
      next
        case (Cons x xs)
        with ih(3) have "\<forall>c \<in> set (r_key_cids r). col k1 c = col x c" by simp
        from RowCursor_equal_cong[OF this, of row] ne na
        have "\<not> RowCursor_equal (r_key_cids r) row x" by simp
        with ih(4) na Cons show ?thesis by simp
      qed
      show ?thesis using rows s lb su a(2) by simp
    qed
  qed
qed

section \<open>C2: the rows of an aggregate-key scan\<close>

lemma attach_step_config:
  "attach_step first r = Done (out, eof, r') \<Longrightarrow> same_config r r'"
  "attach_step first r = Again r1 \<Longrightarrow> same_config r r1"
  by (auto simp: attach_step_def Let_def same_config_def
           split: if_splits scan_range.splits prod.splits outcome.splits)

lemma attach_config:
  "attach_data_to_merge_set first r = (out, eof, r') \<Longrightarrow> same_config r r'"
proof (induction first r rule: attach_data_to_merge_set.induct)
  case (1 first r)
  show ?case
  proof (cases "attach_step first r")
    case (Done result)
    with "1.prems" have "attach_step first r = Done (out, eof, r')"
      by (subst (asm) attach_data_to_merge_set.simps) simp
    then show ?thesis by (rule attach_step_config)
  next
    case (Again r1)
    with "1.prems" have "attach_data_to_merge_set False r1 = (out, eof, r')"
      by (subst (asm) attach_data_to_merge_set.simps) simp
    from "1.IH"[OF Again this] attach_step_config(2)[OF Again]
    show ?thesis by (rule same_config_trans[rotated])
  qed
qed

text \<open>
  The rows that successive calls of \<open>_agg_key_next_row\<close> emit, up to \<open>n\<close> calls,
  across scan ranges: the caller goes on until end of file or an error.
\<close>

fun agg_scan_rows :: "nat \<Rightarrow> Reader \<Rightarrow> RowCursor list" where
  "agg_scan_rows 0 r = []"
| "agg_scan_rows (Suc n) r =
     (case agg_key_next_row r [] of
        (out, eof, row, r') \<Rightarrow>
          if out = Returned OLAP_SUCCESS \<and> \<not> eof then row # agg_scan_rows n r' else [])"

text \<open>
  Example readers over the example schema: a query with \<open>aggregation\<close> over two
  segments (concat mode); a checksum read with \<open>aggregation\<close> and a row cap of 0 over
  three segments that hold the same key (merge mode); a query over two \<open>eq\<close> ranges of
  one segment (merge mode); and a query without \<open>aggregation\<close> over two segments (merge
  mode).
\<close>

definition full_scan :: KeysParam where
  "full_scan = \<lparr>kp_range = [], kp_end_range = [], kp_start_keys = [], kp_end_keys = []\<rparr>"

definition keyed_segment :: "int \<Rightarrow> bool \<Rightarrow> RowCursor list \<Rightarrow> ColumnData" where
  "keyed_segment ver del rows =
     (example_segment ver del rows)
       \<lparr>cd_prepare := (\<lambda>start_key find_last_row end_key end_key_find_last_row.
          (OLAP_SUCCESS,
           Some (example_block
                   (filter (\<lambda>row. case start_key of None \<Rightarrow> True
                                   | Some k \<Rightarrow> take (length k) row = k) rows)),
           [], OLAP_ERR_DATA_EOF))\<rparr>"

definition concat_agg_reader :: Reader where
  "concat_agg_reader =
     example_reader AGG_KEYS READER_QUERY True full_scan
       [example_segment 1 False [[2, 10]], example_segment 2 False [[1, 20]]]"

definition capped_agg_reader :: Reader where
  "capped_agg_reader =
     (example_reader AGG_KEYS READER_CHECKSUM True full_scan
        [example_segment 1 False [[1, 1]], example_segment 2 False [[1, 2]],
         example_segment 3 False [[1, 4]]])\<lparr>r_scanner_row_num := 0\<rparr>"

definition two_range_agg_reader :: Reader where
  "two_range_agg_reader =
     example_reader AGG_KEYS READER_QUERY False
       \<lparr>kp_range = ''eq'', kp_end_range = ''le'', kp_start_keys = [[2], [1]], kp_end_keys = []\<rparr>
       [keyed_segment 1 False [[1, 20], [2, 10]]]"

definition merge_agg_reader :: Reader where
  "merge_agg_reader =
     example_reader AGG_KEYS READER_QUERY False full_scan
       [example_segment 1 False [[1, 1], [3, 5]], example_segment 2 False [[1, 2], [2, 7]]]"

text \<open>
  C2, as stated: in every scan of an \<open>AGG_KEYS\<close> tablet the emitted keys are
  non-descending and no two consecutive emitted rows are equal on \<open>key_cids\<close>. Three
  scans say otherwise. In concat mode the segments are drained one after the other: key 2
  is emitted before key 1. Under \<open>aggregation\<close> a group is cut at the row cap: key 1 is
  emitted twice in a row. And the ranges of a scan follow each other unmerged: the range
  of key 2 is emitted before the range of key 1.
\<close>

theorem agg_rows_in_order_counterexample:
  "keys_type (r_olap_table concat_agg_reader) = AGG_KEYS
   \<and> agg_scan_rows 3 (snd (snd (attach_data_to_merge_set True concat_agg_reader)))
       = [[2, 10], [1, 20]]
   \<and> full_key_cmp (tablet_schema (r_olap_table concat_agg_reader)) [2, 10] [1, 20] = 1
   \<and> keys_type (r_olap_table capped_agg_reader) = AGG_KEYS
   \<and> agg_scan_rows 3 (snd (snd (attach_data_to_merge_set True capped_agg_reader)))
       = [[1, 2], [1, 4]]
   \<and> RowCursor_equal (r_key_cids capped_agg_reader) [1, 2] [1, 4]
   \<and> keys_type (r_olap_table two_range_agg_reader) = AGG_KEYS
   \<and> agg_scan_rows 3 (snd (snd (attach_data_to_merge_set True two_range_agg_reader)))
       = [[2, 10], [1, 20]]"
  by code_simp

text \<open>
  C2, amended: for an \<open>AGG_KEYS\<close> tablet read in merge mode (the reader is not a query,
  or \<open>aggregation\<close> is off; the iterator's mode is the one \<open>CollectIterator::init\<close>
  sets), over segments that hand out their rows in full-key order, the rows emitted from
  one scan range, from the state in which \<open>_attach_data_to_merge_set\<close> left the reader,
  are in non-descending full-key order; and when \<open>aggregation\<close> is off (no row cap), no
  two consecutive ones are equal on \<open>key_cids\<close>.
\<close>

theorem agg_rows_in_order:
  assumes kt: "keys_type (r_olap_table r0) = AGG_KEYS"
    and md: "r_reader_type r0 \<noteq> READER_QUERY \<or> \<not> r_aggregation r0"
    and it: "it_merge (r_collect_iter r0)
               = it_merge (CollectIterator_init (r_reader_type r0) (r_aggregation r0)
                             (keys_type (r_olap_table r0)) CollectIterator_new)"
    and ss: "sorted_segments r0" and co: "cids_ok r0"
    and at: "attach_data_to_merge_set first r0 = (Returned OLAP_SUCCESS, False, r)"
  shows "sorted (map (full_key (tablet_schema (r_olap_table r0))) (agg_range_rows n r))
       \<and> (\<not> r_aggregation r0 \<longrightarrow>
             successively (\<lambda>a b. \<not> RowCursor_equal (r_key_cids r0) a b) (agg_range_rows n r))"
proof -
  from kt md it have mg: "it_merge (r_collect_iter r0)"
    by (auto simp: CollectIterator_init_def CollectIterator_new_def)
  from attach_inv[OF mg ss at] obtain k0 where inv: "reader_inv r" and k0: "r_next_key r = Some k0"
    by auto
  from attach_config[OF at] have cfg: "same_config r0 r" .
  with co have co': "cids_ok r" by (simp add: cids_ok_config)
  from agg_range_rows_sorted[OF inv k0 co', of n] cfg
  show ?thesis by (simp add: same_config_def)
qed

lemma merge_agg_reader_sorted: "sorted_segments merge_agg_reader"
  by (simp add: sorted_segments_def merge_agg_reader_def example_reader_def sorted_segment_def
        example_segment_def key_sorted_def unread_def full_key_def key_columns_def
        example_table_def example_view_def col_def upt_rec)

theorem agg_rows_in_order_witness:
  "agg_range_rows 5 (snd (snd (attach_data_to_merge_set True merge_agg_reader)))
     = [[1, 2], [2, 7], [3, 5]]
   \<and> sorted (map (full_key (tablet_schema (r_olap_table merge_agg_reader)))
        (agg_range_rows 5 (snd (snd (attach_data_to_merge_set True merge_agg_reader)))))
   \<and> successively (\<lambda>a b. \<not> RowCursor_equal (r_key_cids merge_agg_reader) a b)
        (agg_range_rows 5 (snd (snd (attach_data_to_merge_set True merge_agg_reader))))"
proof -
  have kt: "keys_type (r_olap_table merge_agg_reader) = AGG_KEYS" by code_simp
  have md: "r_reader_type merge_agg_reader \<noteq> READER_QUERY \<or> \<not> r_aggregation merge_agg_reader"
    by code_simp
  have it: "it_merge (r_collect_iter merge_agg_reader)
               = it_merge (CollectIterator_init (r_reader_type merge_agg_reader)
                             (r_aggregation merge_agg_reader)
                             (keys_type (r_olap_table merge_agg_reader)) CollectIterator_new)"
    by code_simp
  have co: "cids_ok merge_agg_reader"
    by (simp add: cids_ok_def merge_agg_reader_def example_reader_def example_table_def
          example_view_def)
  have at: "attach_data_to_merge_set True merge_agg_reader
              = (Returned OLAP_SUCCESS, False,
                 snd (snd (attach_data_to_merge_set True merge_agg_reader)))"
  proof -
    have "fst (attach_data_to_merge_set True merge_agg_reader) = Returned OLAP_SUCCESS"
      "fst (snd (attach_data_to_merge_set True merge_agg_reader)) = False"
      by code_simp+
    then show ?thesis by (simp add: prod_eq_iff)
  qed
  have na: "\<not> r_aggregation merge_agg_reader" by code_simp
  have rows: "agg_range_rows 5 (snd (snd (attach_data_to_merge_set True merge_agg_reader)))
     = [[1, 2], [2, 7], [3, 5]]" by code_simp
  from agg_rows_in_order[OF kt md it merge_agg_reader_sorted co at, of 5] na rows
  show ?thesis by simp
qed

section \<open>C1: the delete flag of a unique-key group\<close>


















end
